theory Spec2Isabelle
  imports Complex_Main "HOL-Library.Word" "HOL-Library.List_Lexorder"
begin

section \<open>JavaScript strings and numbers\<close>

text \<open>
  A JavaScript string is a sequence of 16-bit UTF-16 code units; its default order
  (the one \<^verbatim>\<open>Array.prototype.sort\<close> uses without a comparator) is the lexicographic
  order of the code units. Strings are therefore lists of 16-bit words, ordered by
  the lexicographic order on lists. \<open>lit\<close> embeds an ASCII literal.
\<close>

type_synonym code_unit = "16 word"
type_synonym jsstring = "code_unit list"

definition lit :: "string \<Rightarrow> jsstring" where
  "lit s = map (\<lambda>c. of_nat (of_char c)) s"

text \<open>\<^verbatim>\<open>parts.join(sep)\<close>\<close>

fun join_with :: "jsstring \<Rightarrow> jsstring list \<Rightarrow> jsstring" where
  "join_with sep [] = []"
| "join_with sep [x] = x"
| "join_with sep (x # y # ys) = x @ sep @ join_with sep (y # ys)"

text \<open>\<^verbatim>\<open>s.padStart(n, c)\<close> for a one-character pad string.\<close>

definition padStart :: "nat \<Rightarrow> code_unit \<Rightarrow> jsstring \<Rightarrow> jsstring" where
  "padStart n c s = replicate (n - length s) c @ s"

text \<open>\<^verbatim>\<open>s.startsWith(c)\<close> for a one-character prefix.\<close>

definition startsWith :: "jsstring \<Rightarrow> code_unit \<Rightarrow> bool" where
  "startsWith s c = (case s of [] \<Rightarrow> False | x # _ \<Rightarrow> x = c)"

text \<open>
  \<^verbatim>\<open>s.toLowerCase()\<close>, on the ASCII letters. The only strings it is applied to are
  the results of \<^verbatim>\<open>Number.prototype.toString\<close>, which are ASCII.
\<close>

definition lower_unit :: "code_unit \<Rightarrow> code_unit" where
  "lower_unit c = (if 0x41 \<le> c \<and> c \<le> 0x5A then c + 0x20 else c)"

definition toLowerCase :: "jsstring \<Rightarrow> jsstring" where
  "toLowerCase s = map lower_unit s"

text \<open>\<^verbatim>\<open>s.split(c)\<close> for a one-character separator: the pieces between the separators.\<close>

fun split_on :: "code_unit \<Rightarrow> jsstring \<Rightarrow> jsstring list" where
  "split_on c [] = [[]]"
| "split_on c (x # xs) =
     (if x = c then [] # split_on c xs
      else (case split_on c xs of [] \<Rightarrow> [[x]] | p # ps \<Rightarrow> (x # p) # ps))"

text \<open>\<^verbatim>\<open>s.replace(c, "")\<close> for a one-character pattern: the first occurrence is removed.\<close>

definition remove_first :: "code_unit \<Rightarrow> jsstring \<Rightarrow> jsstring" where
  "remove_first c s = remove1 c s"

text \<open>
  \<^verbatim>\<open>s.replace(/\.?0+$/, "")\<close>: the leftmost match of an optional dot followed by one or
  more zeros up to the end of the string is removed. The match, if any, is the maximal
  run of trailing zeros, together with the dot in front of it when there is one.
\<close>

definition strip_trailing_zeros :: "jsstring \<Rightarrow> jsstring" where
  "strip_trailing_zeros s =
     (let t = rev (dropWhile (\<lambda>c. c = 0x30) (rev s))
      in if length t = length s then s
         else if t \<noteq> [] \<and> last t = 0x2E then butlast t
         else t)"

text \<open>Decimal and hexadecimal digits of a natural number, most significant first.\<close>

fun dec_digits :: "nat \<Rightarrow> nat list" where
  "dec_digits n = (if n < 10 then [n] else dec_digits (n div 10) @ [n mod 10])"

declare dec_digits.simps [simp del]

fun hex_digits :: "nat \<Rightarrow> nat list" where
  "hex_digits n = (if n < 16 then [n] else hex_digits (n div 16) @ [n mod 16])"

declare hex_digits.simps [simp del]

definition digit_unit :: "nat \<Rightarrow> code_unit" where
  "digit_unit d = (if d < 10 then of_nat (0x30 + d) else of_nat (0x61 + (d - 10)))"

definition show_nat :: "nat \<Rightarrow> jsstring" where
  "show_nat n = map digit_unit (dec_digits n)"

definition show_hex :: "nat \<Rightarrow> jsstring" where
  "show_hex n = map digit_unit (hex_digits n)"

text \<open>
  \<^verbatim>\<open>parseInt(s, 10)\<close>: leading white space is skipped, then an optional sign and the
  longest run of decimal digits are read; \<open>None\<close> is NaN (no digit found).
\<close>

definition is_white_space :: "code_unit \<Rightarrow> bool" where
  "is_white_space c \<longleftrightarrow>
     c \<in> {0x09, 0x0A, 0x0B, 0x0C, 0x0D, 0x20, 0xA0, 0x1680, 0x2028, 0x2029, 0x202F,
          0x205F, 0x3000, 0xFEFF} \<or> (0x2000 \<le> c \<and> c \<le> 0x200A)"

definition is_digit :: "code_unit \<Rightarrow> bool" where
  "is_digit c \<longleftrightarrow> 0x30 \<le> c \<and> c \<le> 0x39"

definition digits_value :: "jsstring \<Rightarrow> nat" where
  "digits_value ds = foldl (\<lambda>acc c. 10 * acc + (unat c - 0x30)) 0 ds"

definition parse_digits :: "jsstring \<Rightarrow> nat option" where
  "parse_digits s =
     (let ds = takeWhile is_digit s in if ds = [] then None else Some (digits_value ds))"

definition parseInt :: "jsstring \<Rightarrow> int option" where
  "parseInt s =
     (case dropWhile is_white_space s of
        [] \<Rightarrow> None
      | c # cs \<Rightarrow>
          if c = 0x2D then map_option (\<lambda>n. - int n) (parse_digits cs)
          else if c = 0x2B then map_option int (parse_digits cs)
          else map_option int (parse_digits (c # cs)))"

text \<open>
  A JavaScript number, as far as canonicalization reads it. A finite non-zero double
  is given by its sign and the digits and exponent that
  \<^verbatim>\<open>Number.prototype.toString\<close> computes for it: the shortest digit string
  \<open>d\<^sub>1 \<dots> d\<^sub>k\<close> and the integer \<open>n\<close> with value \<open>0.d\<^sub>1 \<dots> d\<^sub>k \<times> 10\<^sup>n\<close>. The two zeros are
  one value: \<^verbatim>\<open>-0 === 0\<close>, and both print as \<^verbatim>\<open>0\<close>.
\<close>

datatype jsnum =
    NaN
  | Infinity bool
  | Zero
  | Finite bool "nat list" int

fun isFinite :: "jsnum \<Rightarrow> bool" where
  "isFinite NaN = False"
| "isFinite (Infinity _) = False"
| "isFinite _ = True"

fun is_negative :: "jsnum \<Rightarrow> bool" where
  "is_negative (Infinity neg) = neg"
| "is_negative (Finite neg _ _) = neg"
| "is_negative _ = False"

text \<open>
  The digits of a double: at least one, each below ten, no leading and no trailing
  zero (the digit string is the shortest one).
\<close>

fun wf_num :: "jsnum \<Rightarrow> bool" where
  "wf_num (Finite neg ds n) \<longleftrightarrow>
     ds \<noteq> [] \<and> list_all (\<lambda>d. d < 10) ds \<and> hd ds \<noteq> 0 \<and> last ds \<noteq> 0"
| "wf_num _ \<longleftrightarrow> True"

text \<open>The value \<open>0.d\<^sub>1 \<dots> d\<^sub>k \<times> 10\<^sup>n\<close> is an integer exactly when \<open>k \<le> n\<close>.\<close>

fun is_integral :: "jsnum \<Rightarrow> bool" where
  "is_integral Zero = True"
| "is_integral (Finite neg ds n) \<longleftrightarrow> int (length ds) \<le> n"
| "is_integral _ = False"

text \<open>\<^verbatim>\<open>Number.prototype.toString\<close> (ECMAScript, Number::toString with radix 10).\<close>

definition digits_text :: "nat list \<Rightarrow> jsstring" where
  "digits_text ds = map digit_unit ds"

definition zeros :: "nat \<Rightarrow> jsstring" where
  "zeros n = replicate n 0x30"

definition unsigned_text :: "nat list \<Rightarrow> int \<Rightarrow> jsstring" where
  "unsigned_text ds n =
     (let k = int (length ds) in
      if k \<le> n \<and> n \<le> 21 then digits_text ds @ zeros (nat (n - k))
      else if 0 < n \<and> n \<le> 21 then
        digits_text (take (nat n) ds) @ [0x2E] @ digits_text (drop (nat n) ds)
      else if - 6 < n \<and> n \<le> 0 then [0x30, 0x2E] @ zeros (nat (- n)) @ digits_text ds
      else
        (let e = n - 1;
             sign = (if e < 0 then [0x2D] else [0x2B]);
             etext = [0x65] @ sign @ show_nat (nat \<bar>e\<bar>)
         in if k = 1 then digits_text ds @ etext
            else digits_text (take 1 ds) @ [0x2E] @ digits_text (drop 1 ds) @ etext))"

fun numberToString :: "jsnum \<Rightarrow> jsstring" where
  "numberToString NaN = lit ''NaN''"
| "numberToString (Infinity neg) = (if neg then lit ''-Infinity'' else lit ''Infinity'')"
| "numberToString Zero = lit ''0''"
| "numberToString (Finite neg ds n) = (if neg then [0x2D] else []) @ unsigned_text ds n"

section \<open>Values and errors\<close>

text \<open>
  The values canonicalization can be given: the JSON-compatible ones, \<^verbatim>\<open>undefined\<close>,
  and functions (given by their source text). An object is the list of its own
  enumerable properties in enumeration order; JavaScript objects hold each key once.
\<close>

datatype jsvalue =
    JNull
  | JUndefined
  | JBool bool
  | JNum jsnum
  | JStr jsstring
  | JArr "jsvalue list"
  | JObj "(jsstring \<times> jsvalue) list"
  | JFunction jsstring

datatype error =
    CanonicalizeError jsstring
  | SyntaxError
  | FarameshError jsstring "nat option"
  | FarameshAuthError jsstring
  | FarameshNotFoundError jsstring
  | FarameshPolicyError jsstring
  | FarameshTimeoutError jsstring
  | FarameshConnectionError jsstring
  | FarameshValidationError jsstring
  | FarameshServerError jsstring
  | FarameshDeniedError jsstring
  | OtherError jsstring

text \<open>Running a list of computations in order; the first exception ends the run.\<close>

fun collect :: "('e + 'a) list \<Rightarrow> 'e + 'a list" where
  "collect [] = Inr []"
| "collect (x # xs) =
     (case x of
        Inl e \<Rightarrow> Inl e
      | Inr v \<Rightarrow> (case collect xs of Inl e \<Rightarrow> Inl e | Inr vs \<Rightarrow> Inr (v # vs)))"

fun typeof :: "jsvalue \<Rightarrow> jsstring" where
  "typeof JUndefined = lit ''undefined''"
| "typeof (JBool _) = lit ''boolean''"
| "typeof (JNum _) = lit ''number''"
| "typeof (JStr _) = lit ''string''"
| "typeof (JFunction _) = lit ''function''"
| "typeof _ = lit ''object''"

section \<open>Canonicalization\<close>

definition ACTION_EXCLUDE_FIELDS :: "jsstring list" where
  "ACTION_EXCLUDE_FIELDS =
     [lit ''id'', lit ''approval_token'', lit ''created_at'', lit ''updated_at'',
      lit ''tenant_id'', lit ''project_id'', lit ''version'', lit ''decision'',
      lit ''status'', lit ''reason'', lit ''risk_level'', lit ''policy_version'',
      lit ''policy_hash'', lit ''runtime_version'', lit ''profile_id'',
      lit ''profile_version'', lit ''profile_hash'', lit ''provenance_id'',
      lit ''outcome'', lit ''reason_code'', lit ''reason_details'', lit ''request_hash'']"

text \<open>
  The expansion of exponent notation inside \<^verbatim>\<open>normalizeFloat\<close>. The exponent is
  \<open>None\<close> when \<^verbatim>\<open>parseInt\<close> yields NaN; then both comparisons are false and the
  slices are taken at position 0.
\<close>

definition expand_exponent :: "jsstring \<Rightarrow> bool \<Rightarrow> jsstring" where
  "expand_exponent str isNegative =
     (let pieces = split_on 0x65 (toLowerCase str);
          mantissa = hd pieces;
          exponent = (case tl pieces of [] \<Rightarrow> None | exponentStr # _ \<Rightarrow> parseInt exponentStr);
          parts = split_on 0x2E mantissa;
          intPart = remove_first 0x2D (hd parts);
          fracPart = (case tl parts of [] \<Rightarrow> [] | f # _ \<Rightarrow> f);
          allDigits = intPart @ fracPart;
          str' =
            (case exponent of
               None \<Rightarrow> [0x2E] @ allDigits
             | Some e \<Rightarrow>
                 if e > 0 then
                   (if int (length fracPart) \<le> e
                    then intPart @ fracPart @ zeros (nat (e - int (length fracPart)))
                    else intPart @ take (nat e) fracPart @ [0x2E] @ drop (nat e) fracPart)
                 else
                   (let absExp = nat \<bar>e\<bar> in
                    if absExp \<ge> length allDigits
                    then [0x30, 0x2E] @ zeros (absExp - length allDigits) @ allDigits
                    else take (length allDigits - absExp) allDigits @ [0x2E]
                         @ drop (length allDigits - absExp) allDigits))
      in if isNegative \<and> \<not> startsWith str' 0x2D then [0x2D] @ str' else str')"

definition normalizeFloat :: "jsnum \<Rightarrow> error + jsstring" where
  "normalizeFloat val =
     (if val = NaN then Inl (CanonicalizeError (lit ''NaN is not allowed in canonical JSON''))
      else if \<not> isFinite val
        then Inl (CanonicalizeError (lit ''Infinity is not allowed in canonical JSON''))
      else if val = Zero then Inr (lit ''0'')
      else
        (let str = numberToString val;
             str = (if 0x65 \<in> set str \<or> 0x45 \<in> set str
                    then expand_exponent str (is_negative val) else str);
             str = (if 0x2E \<in> set str then strip_trailing_zeros str else str)
         in Inr str))"

definition escape_unit :: "code_unit \<Rightarrow> jsstring" where
  "escape_unit c =
     (if c = 0x22 then [0x5C, 0x22]
      else if c = 0x5C then [0x5C, 0x5C]
      else if c = 0x08 then [0x5C, 0x62]
      else if c = 0x0C then [0x5C, 0x66]
      else if c = 0x0A then [0x5C, 0x6E]
      else if c = 0x0D then [0x5C, 0x72]
      else if c = 0x09 then [0x5C, 0x74]
      else if c < 0x20 then [0x5C, 0x75] @ padStart 4 0x30 (show_hex (unat c))
      else [c])"

text \<open>
  The source walks the string by code points and tests the first code unit of each.
  A code point of two code units is a surrogate pair, both units at or above
  \<open>0xD800\<close>, which takes the last branch and is appended unchanged; so the walk is
  the same as one over the code units.
\<close>

definition serializeString :: "jsstring \<Rightarrow> jsstring" where
  "serializeString s = [0x22] @ concat (map escape_unit s) @ [0x22]"

lemma map_of_size_less:
  "map_of kvs k = Some v \<Longrightarrow> size v < Suc (size_list (size_prod (\<lambda>_. 0) size) kvs)"
  by (induction kvs) (auto split: if_splits)

text \<open>
  \<^verbatim>\<open>serializeValue\<close> with \<^verbatim>\<open>serializeArray\<close> and \<^verbatim>\<open>serializeObject\<close> unfolded into
  it. \<^verbatim>\<open>Object.keys(value).sort()\<close> is the sorted list of the keys and
  \<^verbatim>\<open>value[key]\<close> the lookup of a key. The keys of an object are strings by
  construction, so the \<^verbatim>\<open>typeof key\<close> test never fails.
\<close>

function serializeValue :: "jsvalue \<Rightarrow> error + jsstring" where
  "serializeValue JNull = Inr (lit ''null'')"
| "serializeValue JUndefined = Inr (lit ''null'')"
| "serializeValue (JBool b) = Inr (if b then lit ''true'' else lit ''false'')"
| "serializeValue (JNum n) = normalizeFloat n"
| "serializeValue (JStr s) = Inr (serializeString s)"
| "serializeValue (JArr xs) =
     (case collect (map serializeValue xs) of
        Inl e \<Rightarrow> Inl e
      | Inr parts \<Rightarrow> Inr ([0x5B] @ join_with [0x2C] parts @ [0x5D]))"
| "serializeValue (JObj kvs) =
     (case collect
             (map (\<lambda>key.
                     case (case map_of kvs key of None \<Rightarrow> Inr (lit ''null'')
                           | Some v \<Rightarrow> serializeValue v) of
                       Inl e \<Rightarrow> Inl e
                     | Inr valStr \<Rightarrow> Inr (serializeString key @ [0x3A] @ valStr))
                (sort (map fst kvs))) of
        Inl e \<Rightarrow> Inl e
      | Inr parts \<Rightarrow> Inr ([0x7B] @ join_with [0x2C] parts @ [0x7D]))"
| "serializeValue (JFunction src) =
     Inl (CanonicalizeError (lit ''Cannot canonicalize value of type function: '' @ src))"
  by pat_completeness auto
termination
  by (relation "measure size") (auto simp: less_Suc_eq_le size_list_estimation' dest: map_of_size_less)

text \<open>
  \<^verbatim>\<open>JSON.parse(JSON.stringify(obj))\<close>. \<^verbatim>\<open>JSON.stringify\<close> writes a non-finite number as
  \<^verbatim>\<open>null\<close>, writes \<^verbatim>\<open>undefined\<close> and functions as \<^verbatim>\<open>null\<close> inside an array and leaves
  them out of an object; at top level it returns \<^verbatim>\<open>undefined\<close> for them, which
  \<^verbatim>\<open>JSON.parse\<close> rejects with a SyntaxError. Every other value is read back as it was.
\<close>

fun omitted :: "jsvalue \<Rightarrow> bool" where
  "omitted JUndefined = True"
| "omitted (JFunction _) = True"
| "omitted _ = False"

fun jsonCopy :: "jsvalue \<Rightarrow> jsvalue" where
  "jsonCopy (JNum n) = (if isFinite n then JNum n else JNull)"
| "jsonCopy (JArr xs) = JArr (map (\<lambda>x. if omitted x then JNull else jsonCopy x) xs)"
| "jsonCopy (JObj kvs) =
     JObj (map (\<lambda>(k, v). (k, jsonCopy v)) (filter (\<lambda>(k, v). \<not> omitted v) kvs))"
| "jsonCopy v = v"

definition canonicalize :: "jsvalue \<Rightarrow> error + jsstring" where
  "canonicalize obj = (if omitted obj then Inl SyntaxError else serializeValue (jsonCopy obj))"

section \<open>Hashing\<close>

text \<open>
  \<^verbatim>\<open>Buffer.from(s, "utf-8")\<close>: the string is read as UTF-16 (a high surrogate followed
  by a low one is one code point; a surrogate on its own is replaced by \<open>U+FFFD\<close>) and
  each code point is written in UTF-8.
\<close>

type_synonym byte = "8 word"

definition is_high_surrogate :: "code_unit \<Rightarrow> bool" where
  "is_high_surrogate c \<longleftrightarrow> 0xD800 \<le> c \<and> c \<le> 0xDBFF"

definition is_low_surrogate :: "code_unit \<Rightarrow> bool" where
  "is_low_surrogate c \<longleftrightarrow> 0xDC00 \<le> c \<and> c \<le> 0xDFFF"

definition scalar_of :: "code_unit \<Rightarrow> nat" where
  "scalar_of c = (if is_high_surrogate c \<or> is_low_surrogate c then 0xFFFD else unat c)"

fun code_points :: "jsstring \<Rightarrow> nat list" where
  "code_points [] = []"
| "code_points [c] = [scalar_of c]"
| "code_points (c # d # cs) =
     (if is_high_surrogate c \<and> is_low_surrogate d
      then (0x10000 + (unat c - 0xD800) * 0x400 + (unat d - 0xDC00)) # code_points cs
      else scalar_of c # code_points (d # cs))"

definition utf8_bytes :: "nat \<Rightarrow> byte list" where
  "utf8_bytes cp =
     (if cp < 0x80 then [of_nat cp]
      else if cp < 0x800 then [of_nat (0xC0 + cp div 0x40), of_nat (0x80 + cp mod 0x40)]
      else if cp < 0x10000 then
        [of_nat (0xE0 + cp div 0x1000), of_nat (0x80 + cp div 0x40 mod 0x40),
         of_nat (0x80 + cp mod 0x40)]
      else
        [of_nat (0xF0 + cp div 0x40000), of_nat (0x80 + cp div 0x1000 mod 0x40),
         of_nat (0x80 + cp div 0x40 mod 0x40), of_nat (0x80 + cp mod 0x40)])"

definition utf8_encode :: "jsstring \<Rightarrow> byte list" where
  "utf8_encode s = concat (map utf8_bytes (code_points s))"

text \<open>
  The digest is the \<^verbatim>\<open>crypto\<close> library's SHA-256, written as lower-case hexadecimal;
  it is a parameter of the two hash functions.
\<close>

definition computeHash :: "(byte list \<Rightarrow> jsstring) \<Rightarrow> jsvalue \<Rightarrow> error + jsstring" where
  "computeHash sha256 obj =
     (case canonicalize obj of
        Inl e \<Rightarrow> Inl e
      | Inr canonicalStr \<Rightarrow> Inr (sha256 (utf8_encode canonicalStr)))"

text \<open>\<^verbatim>\<open>ACTION_EXCLUDE_FIELDS.has(key) || key.startsWith("_")\<close>\<close>

definition is_excluded :: "jsstring \<Rightarrow> bool" where
  "is_excluded key \<longleftrightarrow> key \<in> set ACTION_EXCLUDE_FIELDS \<or> startsWith key 0x5F"

text \<open>The assignment \<^verbatim>\<open>obj[key] = value\<close>: a key already there keeps its place.\<close>

fun obj_set :: "(jsstring \<times> jsvalue) list \<Rightarrow> jsstring \<Rightarrow> jsvalue \<Rightarrow> (jsstring \<times> jsvalue) list" where
  "obj_set [] key val = [(key, val)]"
| "obj_set ((k, v) # kvs) key val =
     (if k = key then (key, val) # kvs else (k, v) # obj_set kvs key val)"

text \<open>The payload is given by \<^verbatim>\<open>Object.entries(payload)\<close>.\<close>

definition cleanPayload :: "(jsstring \<times> jsvalue) list \<Rightarrow> (jsstring \<times> jsvalue) list" where
  "cleanPayload payload =
     foldl (\<lambda>clean (key, val). if is_excluded key then clean else obj_set clean key val)
       [] payload"

definition canonicalizeActionPayload :: "(jsstring \<times> jsvalue) list \<Rightarrow> error + jsstring" where
  "canonicalizeActionPayload payload = canonicalize (JObj (cleanPayload payload))"

definition computeRequestHash ::
    "(byte list \<Rightarrow> jsstring) \<Rightarrow> (jsstring \<times> jsvalue) list \<Rightarrow> error + jsstring" where
  "computeRequestHash sha256 payload =
     (case canonicalizeActionPayload payload of
        Inl e \<Rightarrow> Inl e
      | Inr canonicalStr \<Rightarrow> Inr (sha256 (utf8_encode canonicalStr)))"

section \<open>Transport executor\<close>

text \<open>
  The numbers of the client configuration are used in comparisons and products, so they
  are given by their value: a real, or NaN. Rounding and the infinities are not
  modelled. \<^verbatim>\<open>undefined\<close> is \<open>None\<close>; as a number it is NaN.
\<close>

datatype number = NotANumber | Num real

type_synonym callback = nat

record ClientConfig =
  baseUrl :: "jsstring option"
  token :: "jsstring option"
  timeoutMs :: "number option"
  maxRetries :: "number option"
  retryBackoffFactor :: "number option"
  onRequestStart :: "callback option"
  onRequestEnd :: "callback option"
  onError :: "callback option"

datatype http_method = GET | POST | PUT | DELETE

text \<open>
  What one physical attempt (\<^verbatim>\<open>client.request\<close>) does: it resolves with a status and a
  body, or rejects with an error of the HTTP library (with the response when there is
  one, an error code and a message), or throws something else.
\<close>

datatype axios_error =
  AxiosError (ax_response: "(nat \<times> jsvalue) option") (ax_code: "jsstring option")
    (ax_message: jsstring)

datatype attempt_result =
    Resolved nat jsvalue
  | Rejected axios_error
  | Thrown error

text \<open>
  What the caller can observe of a run beside its result: the attempts made, the waits
  between them (in milliseconds) and the calls of the instrumentation callbacks. The
  duration passed to \<^verbatim>\<open>onRequestEnd\<close> is left out.
\<close>

datatype event =
    Attempt nat
  | Sleep number
  | CallOnRequestStart callback http_method jsstring
  | CallOnRequestEnd callback http_method jsstring nat
  | CallOnError callback error

fun truthy :: "jsvalue \<Rightarrow> bool" where
  "truthy JNull = False"
| "truthy JUndefined = False"
| "truthy (JBool b) = b"
| "truthy (JNum n) = (n \<noteq> NaN \<and> n \<noteq> Zero)"
| "truthy (JStr s) = (s \<noteq> [])"
| "truthy _ = True"

text \<open>\<^verbatim>\<open>String(v)\<close>, the conversion a template literal and an error message apply.\<close>

fun toText :: "jsvalue \<Rightarrow> jsstring" where
  "toText JNull = lit ''null''"
| "toText JUndefined = lit ''undefined''"
| "toText (JBool b) = (if b then lit ''true'' else lit ''false'')"
| "toText (JNum n) = numberToString n"
| "toText (JStr s) = s"
| "toText (JArr xs) =
     join_with [0x2C] (map (\<lambda>x. if x = JNull \<or> x = JUndefined then [] else toText x) xs)"
| "toText (JObj kvs) = lit ''[object Object]''"
| "toText (JFunction src) = src"

text \<open>
  Reading a property of a value that is not \<^verbatim>\<open>null\<close> or \<^verbatim>\<open>undefined\<close>. The properties
  read are \<^verbatim>\<open>status\<close>, \<^verbatim>\<open>decision\<close>, \<^verbatim>\<open>reason\<close> and \<^verbatim>\<open>detail\<close>, which only an object can
  have.
\<close>

fun get_prop :: "jsvalue \<Rightarrow> jsstring \<Rightarrow> jsvalue" where
  "get_prop (JObj kvs) key = (case map_of kvs key of None \<Rightarrow> JUndefined | Some v \<Rightarrow> v)"
| "get_prop _ key = JUndefined"

text \<open>\<^verbatim>\<open>s.includes(sub)\<close>\<close>

fun includes_str :: "jsstring \<Rightarrow> jsstring \<Rightarrow> bool" where
  "includes_str [] sub = (sub = [])"
| "includes_str (x # xs) sub = (take (length sub) (x # xs) = sub \<or> includes_str xs sub)"

fun error_message :: "error \<Rightarrow> jsstring" where
  "error_message (CanonicalizeError m) = m"
| "error_message SyntaxError = lit ''Unexpected token''"
| "error_message (FarameshError m _) = m"
| "error_message (FarameshAuthError m) = m"
| "error_message (FarameshNotFoundError m) = m"
| "error_message (FarameshPolicyError m) = m"
| "error_message (FarameshTimeoutError m) = m"
| "error_message (FarameshConnectionError m) = m"
| "error_message (FarameshValidationError m) = m"
| "error_message (FarameshServerError m) = m"
| "error_message (FarameshDeniedError m) = m"
| "error_message (OtherError m) = m"

text \<open>The classes of the \<^verbatim>\<open>instanceof\<close> chain that re-throws known errors.\<close>

fun is_known_error :: "error \<Rightarrow> bool" where
  "is_known_error (FarameshAuthError _) = True"
| "is_known_error (FarameshNotFoundError _) = True"
| "is_known_error (FarameshPolicyError _) = True"
| "is_known_error (FarameshValidationError _) = True"
| "is_known_error (FarameshTimeoutError _) = True"
| "is_known_error (FarameshConnectionError _) = True"
| "is_known_error _ = False"

definition num_le :: "nat \<Rightarrow> number option \<Rightarrow> bool" where
  "num_le a m = (case m of Some (Num r) \<Rightarrow> real a \<le> r | _ \<Rightarrow> False)"

definition num_lt :: "nat \<Rightarrow> number option \<Rightarrow> bool" where
  "num_lt a m = (case m of Some (Num r) \<Rightarrow> real a < r | _ \<Rightarrow> False)"

text \<open>\<^verbatim>\<open>config.retryBackoffFactor! * Math.pow(2, attempt) * 1000\<close>\<close>

definition waitTime :: "number option \<Rightarrow> nat \<Rightarrow> number" where
  "waitTime factor attempt =
     (case factor of Some (Num b) \<Rightarrow> Num (b * 2 ^ attempt * 1000) | _ \<Rightarrow> NotANumber)"

text \<open>\<^verbatim>\<open>config.maxRetries! + 1\<close>\<close>

definition plus_one :: "number option \<Rightarrow> number" where
  "plus_one m = (case m of Some (Num r) \<Rightarrow> Num (r + 1) | _ \<Rightarrow> NotANumber)"

text \<open>
  A callback is called when it is configured; what it throws is caught and dropped.
\<close>

definition notify :: "callback option \<Rightarrow> (callback \<Rightarrow> event) \<Rightarrow> event list" where
  "notify cb ev = (case cb of None \<Rightarrow> [] | Some c \<Rightarrow> [ev c])"

text \<open>\<^verbatim>\<open>(data as any)?.detail || data || axiosError.message\<close>\<close>

definition detail_text :: "axios_error \<Rightarrow> jsstring" where
  "detail_text e =
     (case ax_response e of
        None \<Rightarrow> ax_message e
      | Some (status, data) \<Rightarrow>
          if data \<noteq> JNull \<and> data \<noteq> JUndefined \<and> truthy (get_prop data (lit ''detail''))
          then toText (get_prop data (lit ''detail''))
          else if truthy data then toText data
          else ax_message e)"

text \<open>
  The outcome of one pass through the loop body: the request is over with a result, or
  the loop goes on, with the message of \<^verbatim>\<open>lastError\<close>.
\<close>

datatype pass = Done "error + jsvalue" "event list" | Continue jsstring "event list"

text \<open>
  The numbers that appear in messages are written by \<open>str\<close>, JavaScript's conversion of
  a number to a string, a parameter of the model.
\<close>

definition opt_text :: "(number \<Rightarrow> jsstring) \<Rightarrow> number option \<Rightarrow> jsstring" where
  "opt_text str n = (case n of None \<Rightarrow> lit ''undefined'' | Some x \<Rightarrow> str x)"

definition full_url :: "ClientConfig \<Rightarrow> jsstring \<Rightarrow> jsstring" where
  "full_url config path =
     (case baseUrl config of None \<Rightarrow> lit ''undefined'' | Some b \<Rightarrow> b)
     @ (if startsWith path 0x2F then path else [0x2F] @ path)"

text \<open>
  The \<^verbatim>\<open>try\<close> block after a response has arrived. The two tests for a policy denial
  have the same body in the source and are one predicate here. The
  \<^verbatim>\<open>FarameshPolicyError\<close> thrown inside the \<^verbatim>\<open>try\<close> is caught by the \<^verbatim>\<open>catch\<close> below
  it, which re-throws it as a known error.
\<close>

definition is_policy_denial :: "http_method \<Rightarrow> jsstring \<Rightarrow> jsvalue \<Rightarrow> bool" where
  "is_policy_denial method path responseData \<longleftrightarrow>
     method = POST \<and> path = lit ''/v1/actions'' \<and> truthy responseData
     \<and> typeof responseData = lit ''object''
     \<and> (get_prop responseData (lit ''status'') = JStr (lit ''denied'')
        \<or> (get_prop responseData (lit ''decision'') = JStr (lit ''deny'')
           \<and> get_prop responseData (lit ''status'') \<noteq> JStr (lit ''pending_approval'')))"

definition on_response ::
    "ClientConfig \<Rightarrow> http_method \<Rightarrow> jsstring \<Rightarrow> nat \<Rightarrow> jsvalue \<Rightarrow> pass" where
  "on_response config method path status responseData =
     (let fullUrl = full_url config path in
      if is_policy_denial method path responseData then
        (let err = FarameshPolicyError
               (if truthy (get_prop responseData (lit ''reason''))
                then toText (get_prop responseData (lit ''reason''))
                else lit ''Action denied by policy'')
         in Done (Inl err)
              (notify (onError config) (\<lambda>c. CallOnError c err)
               @ notify (onRequestEnd config) (\<lambda>c. CallOnRequestEnd c method fullUrl status)))
      else Done (Inr responseData)
             (notify (onRequestEnd config) (\<lambda>c. CallOnRequestEnd c method fullUrl status)))"

text \<open>The \<^verbatim>\<open>catch\<close> block for an error of the HTTP library.\<close>

definition on_axios_error ::
    "(number \<Rightarrow> jsstring) \<Rightarrow> ClientConfig \<Rightarrow> http_method \<Rightarrow> jsstring \<Rightarrow> nat \<Rightarrow> axios_error
      \<Rightarrow> pass" where
  "on_axios_error str config method path attempt e =
     (let fullUrl = full_url config path;
          status = (case ax_response e of None \<Rightarrow> None | Some (s, d) \<Rightarrow> Some s);
          data = (case ax_response e of None \<Rightarrow> JUndefined | Some (s, d) \<Rightarrow> d)
      in
      if status = Some 401 then
        (let err = FarameshAuthError
               (lit ''Authentication failed (401) on '' @ path @ lit '': ''
                @ (if truthy data then toText data else ax_message e))
         in Done (Inl err)
              (notify (onError config) (\<lambda>c. CallOnError c err)
               @ notify (onRequestEnd config) (\<lambda>c. CallOnRequestEnd c method fullUrl 401)))
      else if status = Some 404 then
        (let err = FarameshNotFoundError (lit ''Resource not found (404) on '' @ path)
         in Done (Inl err)
              (notify (onError config) (\<lambda>c. CallOnError c err)
               @ notify (onRequestEnd config) (\<lambda>c. CallOnRequestEnd c method fullUrl 404)))
      else if status = Some 422 then
        (let err = FarameshValidationError
               (lit ''Validation error (422) on '' @ path @ lit '': '' @ detail_text e)
         in Done (Inl err)
              (notify (onError config) (\<lambda>c. CallOnError c err)
               @ notify (onRequestEnd config) (\<lambda>c. CallOnRequestEnd c method fullUrl 422)))
      else if num_lt attempt (maxRetries config) \<and> (\<exists>s. status = Some s \<and> s \<noteq> 0 \<and> s \<ge> 500) then
        (let err = FarameshServerError
               (lit ''Server error ('' @ show_nat (the status) @ lit '') on '' @ path @ lit '': ''
                @ ax_message e)
         in Continue (ax_message e)
              (notify (onError config) (\<lambda>c. CallOnError c err)
               @ [Sleep (waitTime (retryBackoffFactor config) attempt)]))
      else if ax_code e = Some (lit ''ECONNABORTED'') \<or> includes_str (ax_message e) (lit ''timeout'') then
        (let err = FarameshTimeoutError
               (lit ''Request timed out after '' @ opt_text str (timeoutMs config) @ lit ''ms: ''
                @ fullUrl)
         in Done (Inl err)
              (notify (onError config) (\<lambda>c. CallOnError c err)
               @ notify (onRequestEnd config) (\<lambda>c. CallOnRequestEnd c method fullUrl 0)))
      else
        Done (Inl (FarameshError (lit ''Request failed: '' @ detail_text e)
                     (Some (case status of None \<Rightarrow> 0 | Some s \<Rightarrow> s))))
          [])"

text \<open>The \<^verbatim>\<open>catch\<close> block for anything else that was thrown.\<close>

definition on_thrown :: "ClientConfig \<Rightarrow> nat \<Rightarrow> error \<Rightarrow> pass" where
  "on_thrown config attempt err =
     (if is_known_error err then Done (Inl err) []
      else if num_lt attempt (maxRetries config)
      then Continue (error_message err) [Sleep (waitTime (retryBackoffFactor config) attempt)]
      else Continue (error_message err) [])"

definition one_pass ::
    "(number \<Rightarrow> jsstring) \<Rightarrow> ClientConfig \<Rightarrow> http_method \<Rightarrow> jsstring \<Rightarrow> nat \<Rightarrow> attempt_result
      \<Rightarrow> pass" where
  "one_pass str config method path attempt r =
     (case r of
        Resolved status responseData \<Rightarrow> on_response config method path status responseData
      | Rejected e \<Rightarrow> on_axios_error str config method path attempt e
      | Thrown err \<Rightarrow> on_thrown config attempt err)"

text \<open>What follows the loop once the attempts are used up.\<close>

definition after_loop ::
    "(number \<Rightarrow> jsstring) \<Rightarrow> ClientConfig \<Rightarrow> http_method \<Rightarrow> jsstring \<Rightarrow> jsstring option
      \<Rightarrow> (error + jsvalue) \<times> event list" where
  "after_loop str config method path lastError =
     (case lastError of
        Some m \<Rightarrow>
          (Inl (FarameshError
                  (lit ''Request failed after '' @ str (plus_one (maxRetries config))
                   @ lit '' attempts: '' @ m) None), [])
      | None \<Rightarrow>
          (let err = FarameshError
                 (lit ''Request failed after '' @ str (plus_one (maxRetries config))
                  @ lit '' attempts on '' @ path) None
           in (Inl err,
               notify (onError config) (\<lambda>c. CallOnError c err)
               @ notify (onRequestEnd config)
                   (\<lambda>c. CallOnRequestEnd c method (full_url config path) 0))))"

text \<open>
  The loop \<^verbatim>\<open>for (attempt = 0; attempt <= config.maxRetries; attempt++)\<close>; \<open>transport\<close>
  gives the outcome of each physical attempt.
\<close>

function request_loop ::
    "(number \<Rightarrow> jsstring) \<Rightarrow> ClientConfig \<Rightarrow> (nat \<Rightarrow> attempt_result) \<Rightarrow> http_method \<Rightarrow> jsstring
      \<Rightarrow> nat \<Rightarrow> jsstring option \<Rightarrow> (error + jsvalue) \<times> event list" where
  "request_loop str config transport method path attempt lastError =
     (if \<not> num_le attempt (maxRetries config) then after_loop str config method path lastError
      else
        (case one_pass str config method path attempt (transport attempt) of
           Done result evs \<Rightarrow> (result, Attempt attempt # evs)
         | Continue m evs \<Rightarrow>
             (case request_loop str config transport method path (Suc attempt) (Some m) of
                (result, rest) \<Rightarrow> (result, Attempt attempt # evs @ rest))))"
  by pat_completeness auto
termination
proof (relation "measure (\<lambda>(str, config, transport, method, path, attempt, lastError).
          case maxRetries config of Some (Num r) \<Rightarrow> nat \<lfloor>r\<rfloor> + 1 - attempt | _ \<Rightarrow> 0)")
  show "wf (measure (\<lambda>(str, config, transport, method, path, attempt, lastError).
          case maxRetries config of Some (Num r) \<Rightarrow> nat \<lfloor>r\<rfloor> + 1 - attempt | _ \<Rightarrow> 0))"
    by simp
next
  fix str :: "number \<Rightarrow> jsstring" and config :: ClientConfig
    and transport :: "nat \<Rightarrow> attempt_result" and meth :: http_method and path :: jsstring
    and attempt :: nat and lastError :: "jsstring option" and m :: jsstring and evs :: "event list"
  assume "\<not> \<not> num_le attempt (maxRetries config)"
  then obtain r where r: "maxRetries config = Some (Num r)" "real attempt \<le> r"
    by (auto simp: num_le_def split: option.splits number.splits)
  then have "int attempt \<le> \<lfloor>r\<rfloor>" by (simp add: le_floor_iff)
  then have "attempt \<le> nat \<lfloor>r\<rfloor>" by linarith
  then show "((str, config, transport, meth, path, Suc attempt, Some m),
              (str, config, transport, meth, path, attempt, lastError))
        \<in> measure (\<lambda>(str, config, transport, method, path, attempt, lastError).
          case maxRetries config of Some (Num r) \<Rightarrow> nat \<lfloor>r\<rfloor> + 1 - attempt | _ \<Rightarrow> 0)"
    using r by simp
qed

declare request_loop.simps [simp del]

definition makeRequest ::
    "(number \<Rightarrow> jsstring) \<Rightarrow> ClientConfig \<Rightarrow> (nat \<Rightarrow> attempt_result) \<Rightarrow> http_method \<Rightarrow> jsstring
      \<Rightarrow> (error + jsvalue) \<times> event list" where
  "makeRequest str config transport method path =
     (case request_loop str config transport method path 0 None of
        (result, evs) \<Rightarrow>
          (result,
           notify (onRequestStart config) (\<lambda>c. CallOnRequestStart c method (full_url config path))
           @ evs))"

text \<open>The attempts and the waits of a run, in order.\<close>

fun attempts :: "event list \<Rightarrow> nat list" where
  "attempts [] = []"
| "attempts (Attempt n # evs) = n # attempts evs"
| "attempts (_ # evs) = attempts evs"

fun waits :: "event list \<Rightarrow> number list" where
  "waits [] = []"
| "waits (Sleep w # evs) = w # waits evs"
| "waits (_ # evs) = waits evs"

section \<open>Configuration\<close>







section \<open>Action lifecycle\<close>

text \<open>
  A field of a server record is absent (\<^verbatim>\<open>undefined\<close>), \<^verbatim>\<open>null\<close> or a value.
\<close>

datatype 'a nullable = Undefined | Null | Val 'a

datatype ActionStatus =
    allowed | pending_approval | approved | denied | executing | succeeded | failed


text \<open>
  The fields of \<^verbatim>\<open>Action\<close> and \<^verbatim>\<open>GateDecision\<close> that the client reads (the fields of a
  gate decision carry the prefix \<open>gd_\<close>).
\<close>

record Action =
  id' :: jsstring
  agent_id :: jsstring
  tool :: jsstring
  operation :: jsstring
  params :: "jsvalue nullable"
  context' :: "jsvalue nullable"
  status :: ActionStatus
  reason :: "jsstring nullable"
  approval_token :: "jsstring nullable"
  outcome :: "jsstring nullable"
  reason_code :: "jsstring nullable"
  request_hash :: "jsstring nullable"
  policy_hash :: "jsstring nullable"
  profile_hash :: "jsstring nullable"
  runtime_version :: "jsstring nullable"
  provenance_id :: "jsstring nullable"

record GateDecision =
  gd_outcome :: jsstring
  gd_reason_code :: jsstring
  gd_request_hash :: jsstring
  gd_policy_hash :: "jsstring nullable"
  gd_profile_hash :: "jsstring nullable"
  gd_runtime_version :: "jsstring nullable"

record ReplayResult =
  success :: bool
  originalOutcome :: jsstring
  replayedOutcome :: jsstring
  originalReasonCode :: jsstring
  replayedReasonCode :: jsstring
  requestHashMatch :: bool
  policyHashMatch :: bool
  profileHashMatch :: bool
  runtimeVersionMatch :: bool
  mismatches :: "jsstring list"

text \<open>\<^verbatim>\<open>x || d\<close> and \<^verbatim>\<open>!x\<close> for a string field, and its text in a template literal.\<close>

definition or_else :: "jsstring nullable \<Rightarrow> jsstring \<Rightarrow> jsstring" where
  "or_else x d = (case x of Val s \<Rightarrow> if s = [] then d else s | _ \<Rightarrow> d)"


definition template_text :: "jsstring nullable \<Rightarrow> jsstring" where
  "template_text x =
     (case x of Undefined \<Rightarrow> lit ''undefined'' | Null \<Rightarrow> lit ''null'' | Val s \<Rightarrow> s)"

text \<open>
  The requests the lifecycle functions hand to \<^verbatim>\<open>makeRequest\<close>, and the server's answer
  to each as a function \<open>send\<close>; the list returned beside a result is the requests
  made, in order.
\<close>

datatype ApprovalRequest = ApprovalRequest jsstring bool "jsstring option"

datatype request =
    GetAction jsstring
  | PostApproval jsstring ApprovalRequest

fun request_method :: "request \<Rightarrow> http_method" where
  "request_method (GetAction actionId) = GET"
| "request_method (PostApproval actionId payload) = POST"

fun request_path :: "request \<Rightarrow> jsstring" where
  "request_path (GetAction actionId) = lit ''/v1/actions/'' @ actionId"
| "request_path (PostApproval actionId payload) =
     lit ''/v1/actions/'' @ actionId @ lit ''/approval''"





text \<open>
  \<^verbatim>\<open>blockUntilApproved\<close>. The loop reads the clock and fetches the action once per
  pass: \<open>elapsed i\<close> is the value of \<^verbatim>\<open>Date.now() - startTime\<close> at the head of pass \<open>i\<close>
  and \<open>fetch i\<close> the outcome of the \<open>i\<close>-th call of \<^verbatim>\<open>getAction\<close>. The result comes
  with the number of calls of \<^verbatim>\<open>getAction\<close> made; \<open>None\<close> is a loop that never ends.
\<close>

definition ms_or :: "number option \<Rightarrow> real \<Rightarrow> real" where
  "ms_or a d = (case a of Some (Num r) \<Rightarrow> if r = 0 then d else r | _ \<Rightarrow> d)"

partial_function (option) poll_approval ::
    "(number \<Rightarrow> jsstring) \<Rightarrow> real \<Rightarrow> (nat \<Rightarrow> real) \<Rightarrow> (nat \<Rightarrow> error + Action) \<Rightarrow> nat
      \<Rightarrow> ((error + Action) \<times> nat) option" where
  "poll_approval str timeout elapsed fetch i =
     (if elapsed i > timeout then
        Some (Inl (FarameshTimeoutError
                (lit ''Timeout waiting for approval after '' @ str (Num timeout) @ lit ''ms'')), i)
      else
        (case fetch i of
           Inl e \<Rightarrow> Some (Inl e, Suc i)
         | Inr action \<Rightarrow>
             if status action = approved then Some (Inr action, Suc i)
             else if status action = denied then
               Some (Inl (FarameshDeniedError
                       (lit ''Action denied: '' @ or_else (reason action) (lit ''Action denied''))),
                     Suc i)
             else if status action = allowed \<or> status action = succeeded
                     \<or> status action = failed then Some (Inr action, Suc i)
             else poll_approval str timeout elapsed fetch (Suc i)))"

definition blockUntilApproved ::
    "(number \<Rightarrow> jsstring) \<Rightarrow> number option \<Rightarrow> number option \<Rightarrow> (nat \<Rightarrow> real)
      \<Rightarrow> (nat \<Rightarrow> error + Action) \<Rightarrow> ((error + Action) \<times> nat) option" where
  "blockUntilApproved str pollIntervalMs timeout_option elapsed fetch =
     poll_approval str (ms_or timeout_option 300000) elapsed fetch 0"

section \<open>Decision replay\<close>

text \<open>
  The three requests \<^verbatim>\<open>replayDecision\<close> can make, as the answers they get:
  \<^verbatim>\<open>listActions({ limit: 1000 })\<close>, \<^verbatim>\<open>getAction(actionId)\<close> and \<^verbatim>\<open>gateDecide\<close> of an agent,
  tool, operation, parameters and context.
\<close>

record replay_server =
  listActions :: "error + Action list"
  getAction :: "jsstring \<Rightarrow> error + Action"
  gateDecide :: "jsstring \<Rightarrow> jsstring \<Rightarrow> jsstring \<Rightarrow> jsvalue \<Rightarrow> jsvalue \<Rightarrow> error + GateDecision"

text \<open>\<^verbatim>\<open>original.params || {}\<close>\<close>

definition or_empty_object :: "jsvalue nullable \<Rightarrow> jsvalue" where
  "or_empty_object x = (case x of Val v \<Rightarrow> if truthy v then v else JObj [] | _ \<Rightarrow> JObj [])"

text \<open>The comparison at the end of \<^verbatim>\<open>replayDecision\<close>, one \<^verbatim>\<open>push\<close> after the other.\<close>

definition compare_decisions :: "Action \<Rightarrow> GateDecision \<Rightarrow> ReplayResult" where
  "compare_decisions original replayed =
     (let originalOutcome = or_else (outcome original) [];
          replayedOutcome = or_else (Val (gd_outcome replayed)) [];
          m1 = (if originalOutcome \<noteq> replayedOutcome
                then [] @ [lit ''outcome: '' @ originalOutcome @ lit '' != '' @ replayedOutcome]
                else []);
          originalReasonCode = or_else (reason_code original) [];
          replayedReasonCode = or_else (Val (gd_reason_code replayed)) [];
          m2 = (if originalReasonCode \<noteq> replayedReasonCode
                then m1 @ [lit ''reason_code: '' @ originalReasonCode @ lit '' != ''
                           @ replayedReasonCode]
                else m1);
          requestHashMatch = (request_hash original = Val (gd_request_hash replayed));
          m3 = (if \<not> requestHashMatch then m2 @ [lit ''request_hash mismatch''] else m2);
          policyHashMatch = (policy_hash original = gd_policy_hash replayed);
          m4 = (if \<not> policyHashMatch
                then m3 @ [lit ''policy_hash mismatch (policy may have changed)''] else m3);
          profileHashMatch = (profile_hash original = gd_profile_hash replayed);
          m5 = (if \<not> profileHashMatch
                then m4 @ [lit ''profile_hash mismatch (profile may have changed)''] else m4);
          runtimeVersionMatch = (runtime_version original = gd_runtime_version replayed);
          m6 = (if \<not> runtimeVersionMatch
                then m5 @ [lit ''runtime_version: '' @ template_text (runtime_version original)
                           @ lit '' != '' @ template_text (gd_runtime_version replayed)]
                else m5)
      in \<lparr>success = (length m6 = 0),
          originalOutcome = originalOutcome,
          replayedOutcome = replayedOutcome,
          originalReasonCode = originalReasonCode,
          replayedReasonCode = replayedReasonCode,
          requestHashMatch = requestHashMatch,
          policyHashMatch = policyHashMatch,
          profileHashMatch = profileHashMatch,
          runtimeVersionMatch = runtimeVersionMatch,
          mismatches = m6\<rparr>)"

definition replayDecision ::
    "replay_server \<Rightarrow> jsstring option \<Rightarrow> jsstring option \<Rightarrow> error + ReplayResult" where
  "replayDecision server actionId provenanceId =
     (let given = (\<lambda>x. case x of None \<Rightarrow> False | Some s \<Rightarrow> s \<noteq> []);
          shown = (\<lambda>x. case x of None \<Rightarrow> lit ''undefined'' | Some s \<Rightarrow> s)
      in
      if \<not> given actionId \<and> \<not> given provenanceId then
        Inl (FarameshError (lit ''Must provide either actionId or provenanceId'') None)
      else
        (case (if given provenanceId then
                 (case listActions server of
                    Inl e \<Rightarrow> Inl e
                  | Inr actions \<Rightarrow>
                      (case filter (\<lambda>a. provenance_id a = Val (shown provenanceId)) actions of
                         [] \<Rightarrow> Inl (FarameshNotFoundError
                                   (lit ''No action found with provenance_id '' @ [0x27]
                                    @ shown provenanceId @ [0x27]))
                       | original # _ \<Rightarrow> Inr original))
               else getAction server (shown actionId)) of
           Inl e \<Rightarrow> Inl e
         | Inr original \<Rightarrow>
             (case gateDecide server (agent_id original) (tool original) (operation original)
                     (or_empty_object (params original)) (or_empty_object (context' original)) of
                Inl e \<Rightarrow> Inl e
              | Inr replayed \<Rightarrow> Inr (compare_decisions original replayed))))"

text \<open>
  The closed form of what \<^verbatim>\<open>normalizeFloat\<close> returns for a finite non-zero number:
  the sign, then the digits laid out without exponent. \<open>expanded\<close> is the layout the
  source computes from mantissa and exponent \<open>e\<close>.
\<close>

definition sign_text :: "bool \<Rightarrow> jsstring" where
  "sign_text neg = (if neg then [0x2D] else [])"

definition mantissa_text :: "nat list \<Rightarrow> jsstring" where
  "mantissa_text ds =
     (if length ds = 1 then digits_text ds
      else digits_text (take 1 ds) @ [0x2E] @ digits_text (drop 1 ds))"

definition expanded :: "nat list \<Rightarrow> int \<Rightarrow> jsstring" where
  "expanded ds e =
     (if e > 0 then
        (if int (length ds) - 1 \<le> e
         then digits_text ds @ zeros (nat (e - (int (length ds) - 1)))
         else digits_text (take (Suc (nat e)) ds) @ [0x2E] @ digits_text (drop (Suc (nat e)) ds))
      else
        (if nat \<bar>e\<bar> \<ge> length ds
         then [0x30, 0x2E] @ zeros (nat \<bar>e\<bar> - length ds) @ digits_text ds
         else digits_text (take (length ds - nat \<bar>e\<bar>) ds) @ [0x2E]
              @ digits_text (drop (length ds - nat \<bar>e\<bar>) ds)))"

definition plain_text :: "nat list \<Rightarrow> int \<Rightarrow> jsstring" where
  "plain_text ds n =
     (let k = int (length ds) in
      if k \<le> n \<and> n \<le> 21 then digits_text ds @ zeros (nat (n - k))
      else if 0 < n \<and> n \<le> 21 then
        digits_text (take (nat n) ds) @ [0x2E] @ digits_text (drop (nat n) ds)
      else if - 6 < n \<and> n \<le> 0 then [0x30, 0x2E] @ zeros (nat (- n)) @ digits_text ds
      else expanded ds (n - 1))"

definition well_formed_text :: "jsstring \<Rightarrow> bool" where
  "well_formed_text s \<longleftrightarrow>
     0x65 \<notin> set s \<and> 0x45 \<notin> set s \<and> (0x2E \<in> set s \<longrightarrow> s \<noteq> [] \<and> last s \<noteq> 0x30 \<and> last s \<noteq> 0x2E)"

text \<open>The properties of an object that its JSON copy keeps, each with its value copied.\<close>

definition copied :: "(jsstring \<times> jsvalue) list \<Rightarrow> (jsstring \<times> jsvalue) list" where
  "copied kvs = map (\<lambda>(k, v). (k, jsonCopy v)) (filter (\<lambda>(k, v). \<not> omitted v) kvs)"

text \<open>An attempt that ended in a response with a status of 500 or more.\<close>

definition is_server_error :: "attempt_result \<Rightarrow> bool" where
  "is_server_error r \<longleftrightarrow>
     (case r of
        Rejected e \<Rightarrow> (case ax_response e of None \<Rightarrow> False | Some (s, d) \<Rightarrow> s \<ge> 500)
      | _ \<Rightarrow> False)"

text \<open>A configuration and attempt outcomes for the examples.\<close>

definition example_config :: ClientConfig where
  "example_config =
     \<lparr>baseUrl = Some (lit ''http://127.0.0.1:8000''), token = None,
      timeoutMs = Some (Num 30000), maxRetries = Some (Num 3),
      retryBackoffFactor = Some (Num (1 / 2)),
      onRequestStart = None, onRequestEnd = None, onError = None\<rparr>"

definition status_error :: "nat \<Rightarrow> attempt_result" where
  "status_error s =
     Rejected (AxiosError (Some (s, JNull)) (Some (lit ''ERR_BAD_RESPONSE''))
       (lit ''Request failed with status code '' @ show_nat s))"

definition connection_refused :: attempt_result where
  "connection_refused =
     Rejected (AxiosError None (Some (lit ''ECONNREFUSED''))
       (lit ''connect ECONNREFUSED 127.0.0.1:8000''))"

text \<open>Actions, decisions and servers for the examples.\<close>

definition example_action :: "ActionStatus \<Rightarrow> Action" where
  "example_action st =
     \<lparr>id' = lit ''a1'', agent_id = lit ''agent'', tool = lit ''http'', operation = lit ''get'',
      params = Val (JObj []), context' = Val (JObj []), status = st, reason = Null,
      approval_token = Null, outcome = Val (lit ''EXECUTE''), reason_code = Val (lit ''OK''),
      request_hash = Val (lit ''aa''), policy_hash = Val (lit ''bb''),
      profile_hash = Val (lit ''cc''), runtime_version = Val (lit ''1.0''),
      provenance_id = Val (lit ''p1'')\<rparr>"

definition example_decision :: "jsstring \<Rightarrow> GateDecision" where
  "example_decision h =
     \<lparr>gd_outcome = lit ''EXECUTE'', gd_reason_code = lit ''OK'', gd_request_hash = h,
      gd_policy_hash = Val (lit ''bb''), gd_profile_hash = Val (lit ''cc''),
      gd_runtime_version = Val (lit ''1.0'')\<rparr>"

definition example_server :: replay_server where
  "example_server =
     \<lparr>listActions = Inr [example_action allowed],
      getAction = (\<lambda>i. Inr (example_action allowed)),
      gateDecide = (\<lambda>a t operation p c. Inr (example_decision (lit ''zz'')))\<rparr>"






text \<open>The six comparisons of a replay, in the order of the source, each with its entry.\<close>

definition replay_checks :: "Action \<Rightarrow> GateDecision \<Rightarrow> (bool \<times> jsstring) list" where
  "replay_checks original replayed =
     [(or_else (outcome original) [] \<noteq> or_else (Val (gd_outcome replayed)) [],
       lit ''outcome: '' @ or_else (outcome original) [] @ lit '' != ''
       @ or_else (Val (gd_outcome replayed)) []),
      (or_else (reason_code original) [] \<noteq> or_else (Val (gd_reason_code replayed)) [],
       lit ''reason_code: '' @ or_else (reason_code original) [] @ lit '' != ''
       @ or_else (Val (gd_reason_code replayed)) []),
      (request_hash original \<noteq> Val (gd_request_hash replayed), lit ''request_hash mismatch''),
      (policy_hash original \<noteq> gd_policy_hash replayed,
       lit ''policy_hash mismatch (policy may have changed)''),
      (profile_hash original \<noteq> gd_profile_hash replayed,
       lit ''profile_hash mismatch (profile may have changed)''),
      (runtime_version original \<noteq> gd_runtime_version replayed,
       lit ''runtime_version: '' @ template_text (runtime_version original) @ lit '' != ''
       @ template_text (gd_runtime_version replayed))]"

section \<open>Properties of number canonicalization\<close>

lemma unat_digit_unit: "d < 10 \<Longrightarrow> unat (digit_unit d) = 48 + d"
proof -
  assume d: "d < 10"
  have "unat (word_of_nat (48 + d) :: 16 word) = (48 + d) mod 2 ^ 16"
    by (simp only: unat_of_nat len_of_numeral_defs) simp
  then show ?thesis using d by (simp add: digit_unit_def)
qed

lemma digit_unit_cases:
  assumes "d < 10"
  shows "digit_unit d \<noteq> 0x65" "digit_unit d \<noteq> 0x45" "digit_unit d \<noteq> 0x2E"
    "digit_unit d \<noteq> 0x2D" "digit_unit d \<noteq> 0x2B" "is_digit (digit_unit d)"
    "\<not> is_white_space (digit_unit d)" "lower_unit (digit_unit d) = digit_unit d"
proof -
  have u: "unat (digit_unit d) = 48 + d" using assms by (rule unat_digit_unit)
  show "digit_unit d \<noteq> 0x65" using u assms by (auto dest!: arg_cong [where f = unat])
  show "digit_unit d \<noteq> 0x45" using u assms by (auto dest!: arg_cong [where f = unat])
  show "digit_unit d \<noteq> 0x2E" using u assms by (auto dest!: arg_cong [where f = unat])
  show "digit_unit d \<noteq> 0x2D" using u assms by (auto dest!: arg_cong [where f = unat])
  show "digit_unit d \<noteq> 0x2B" using u assms by (auto dest!: arg_cong [where f = unat])
  show "is_digit (digit_unit d)" using u assms by (simp add: is_digit_def word_le_nat_alt)
  show "\<not> is_white_space (digit_unit d)" using u assms
    by (auto simp: is_white_space_def word_le_nat_alt dest!: arg_cong [where f = unat])
  show "lower_unit (digit_unit d) = digit_unit d" using u assms
    by (simp add: lower_unit_def word_le_nat_alt)
qed

lemma digit_unit_zero_iff: "d < 10 \<Longrightarrow> digit_unit d = 0x30 \<longleftrightarrow> d = 0"
proof
  assume d: "d < 10" and "digit_unit d = 0x30"
  then have "unat (digit_unit d) = 48" by simp
  with d show "d = 0" by (simp add: unat_digit_unit)
next
  assume "d = 0"
  then show "digit_unit d = 0x30" by (simp add: digit_unit_def)
qed

lemma dec_digits_lt: "d \<in> set (dec_digits n) \<Longrightarrow> d < 10"
  by (induction n arbitrary: d rule: dec_digits.induct) (subst (asm) dec_digits.simps, auto split: if_splits)

lemma dec_digits_value:
  "foldl (\<lambda>acc d. 10 * acc + d) 0 (dec_digits n) = n"
  by (induction n rule: dec_digits.induct) (subst dec_digits.simps, auto)


lemma show_nat_digits: "c \<in> set (show_nat n) \<Longrightarrow> \<exists>d<10. c = digit_unit d"
  using dec_digits_lt by (auto simp: show_nat_def)

lemma takeWhile_all: "(\<And>x. x \<in> set xs \<Longrightarrow> P x) \<Longrightarrow> takeWhile P xs = xs"
  by (induction xs) auto

lemma foldl_digits_map:
  "list_all (\<lambda>d. d < 10) ds \<Longrightarrow>
   foldl (\<lambda>acc c. 10 * acc + (unat c - 0x30)) a (map digit_unit ds) =
   foldl (\<lambda>acc d. 10 * acc + d) a ds"
  by (induction ds arbitrary: a) (auto simp: unat_digit_unit)

lemma dec_digits_nonempty: "dec_digits n \<noteq> []"
  by (subst dec_digits.simps) simp

lemma parse_digits_show_nat: "parse_digits (show_nat n) = Some n"
proof -
  have all: "list_all (\<lambda>d. d < 10) (dec_digits n)"
    using dec_digits_lt by (auto simp: list_all_iff)
  have tw: "takeWhile is_digit (show_nat n) = show_nat n"
    by (rule takeWhile_all) (use show_nat_digits digit_unit_cases(6) in blast)
  have "digits_value (show_nat n) = n"
    unfolding digits_value_def show_nat_def
    by (simp add: foldl_digits_map [OF all] dec_digits_value)
  moreover have "show_nat n \<noteq> []" by (simp add: show_nat_def dec_digits_nonempty)
  ultimately show ?thesis by (simp add: parse_digits_def tw)
qed

lemma parseInt_exponent:
  "parseInt ([0x2D] @ show_nat m) = Some (- int m)"
  "parseInt ([0x2B] @ show_nat m) = Some (int m)"
  by (simp_all add: parseInt_def is_white_space_def parse_digits_show_nat)

lemma toLowerCase_id: "(\<And>c. c \<in> set s \<Longrightarrow> lower_unit c = c) \<Longrightarrow> toLowerCase s = s"
  by (simp add: toLowerCase_def map_idI)

lemma split_on_notin: "c \<notin> set s \<Longrightarrow> split_on c s = [s]"
  by (induction s) auto

lemma split_on_append: "c \<notin> set a \<Longrightarrow> split_on c (a @ c # b) = a # split_on c b"
  by (induction a) auto

lemma digits_text_units:
  "list_all (\<lambda>d. d < 10) ds \<Longrightarrow> c \<in> set (digits_text ds) \<Longrightarrow> \<exists>d<10. c = digit_unit d"
  by (auto simp: digits_text_def list_all_iff)

lemma digits_text_append: "digits_text (xs @ ys) = digits_text xs @ digits_text ys"
  by (simp add: digits_text_def)

lemma digits_text_take_drop: "digits_text (take i ds) @ digits_text (drop i ds) = digits_text ds"
  by (simp add: digits_text_append [symmetric])

lemma length_digits_text [simp]: "length (digits_text ds) = length ds"
  by (simp add: digits_text_def)

lemma take_digits_text: "take i (digits_text ds) = digits_text (take i ds)"
  by (simp add: digits_text_def take_map)

lemma drop_digits_text: "drop i (digits_text ds) = digits_text (drop i ds)"
  by (simp add: digits_text_def drop_map)

lemma digits_text_free:
  assumes "list_all (\<lambda>d. d < 10) ds"
  shows "0x65 \<notin> set (digits_text ds)" "0x45 \<notin> set (digits_text ds)"
    "0x2E \<notin> set (digits_text ds)" "0x2D \<notin> set (digits_text ds)"
    "\<And>c. c \<in> set (digits_text ds) \<Longrightarrow> lower_unit c = c"
  using digits_text_units [OF assms] digit_unit_cases by metis+

lemma show_nat_free:
  shows "0x65 \<notin> set (show_nat m)" "\<And>c. c \<in> set (show_nat m) \<Longrightarrow> lower_unit c = c"
  using show_nat_digits digit_unit_cases by metis+

lemma list_all_take_drop:
  "list_all P ds \<Longrightarrow> list_all P (take i ds)" "list_all P ds \<Longrightarrow> list_all P (drop i ds)"
  by (auto simp: list_all_iff dest: in_set_takeD in_set_dropD)

lemma expanded_not_minus:
  assumes "ds \<noteq> []" "list_all (\<lambda>d. d < 10) ds"
  shows "\<not> startsWith (expanded ds e) 0x2D"
proof -
  obtain d ds' where ds: "ds = d # ds'" using assms(1) by (cases ds) auto
  then have d: "d < 10" using assms(2) by simp
  have hd: "digit_unit d \<noteq> 0x2D" using digit_unit_cases(4) [OF d] .
  show ?thesis
    using hd by (auto simp: expanded_def startsWith_def ds digits_text_def take_Cons' split: list.splits if_splits)
qed

lemma expand_exponent_sci:
  assumes ds: "ds \<noteq> []" "list_all (\<lambda>d. d < 10) ds"
    and e: "esign = [0x2D] \<and> e = - int m \<or> esign = [0x2B] \<and> e = int m"
  shows "expand_exponent (sign_text neg @ mantissa_text ds @ [0x65] @ esign @ show_nat m) neg
         = sign_text neg @ expanded ds e"
proof -
  let ?str = "sign_text neg @ mantissa_text ds @ [0x65] @ esign @ show_nat m"
  let ?k = "length ds"
  have t1: "list_all (\<lambda>d. d < 10) (take 1 ds)" and d1: "list_all (\<lambda>d. d < 10) (drop 1 ds)"
    using ds(2) by (rule list_all_take_drop)+
  have mant_sub: "set (mantissa_text ds) \<subseteq> set (digits_text ds) \<union> {0x2E}"
    by (auto simp: mantissa_text_def digits_text_def dest: in_set_takeD in_set_dropD)
  have dot_lower: "lower_unit 0x2E = 0x2E" by (simp add: lower_unit_def)
  have mant_lower: "\<And>c. c \<in> set (mantissa_text ds) \<Longrightarrow> lower_unit c = c"
    using digits_text_free(5) [OF ds(2)] dot_lower mant_sub by auto
  have mant_e: "0x65 \<notin> set (mantissa_text ds)"
    using digits_text_free(1) [OF ds(2)] digits_text_free(1) [OF t1] digits_text_free(1) [OF d1]
    by (auto simp: mantissa_text_def)
  have consts_lower: "lower_unit 0x2D = 0x2D" "lower_unit 0x2B = 0x2B" "lower_unit 0x65 = 0x65"
    by (simp_all add: lower_unit_def)
  have low: "toLowerCase ?str = ?str"
    by (rule toLowerCase_id)
       (use e mant_lower show_nat_free(2) consts_lower in \<open>auto simp: sign_text_def\<close>)
  have e_free: "0x65 \<notin> set (esign @ show_nat m)"
    using e show_nat_free(1) by auto
  have "split_on 0x65 ((sign_text neg @ mantissa_text ds) @ 0x65 # (esign @ show_nat m))
        = (sign_text neg @ mantissa_text ds) # split_on 0x65 (esign @ show_nat m)"
    by (rule split_on_append) (use mant_e in \<open>auto simp: sign_text_def\<close>)
  then have pieces: "split_on 0x65 ?str = [sign_text neg @ mantissa_text ds, esign @ show_nat m]"
    using split_on_notin [OF e_free] by simp
  have pe: "parseInt (esign @ show_nat m) = Some e"
    using e parseInt_exponent [of m] by auto
  have parts: "split_on 0x2E (sign_text neg @ mantissa_text ds) =
      (if ?k = 1 then [sign_text neg @ digits_text ds]
       else [sign_text neg @ digits_text (take 1 ds), digits_text (drop 1 ds)])"
  proof (cases "?k = 1")
    case True
    have "0x2E \<notin> set (sign_text neg @ digits_text ds)"
      using digits_text_free(3) [OF ds(2)] by (auto simp: sign_text_def)
    then show ?thesis using True by (simp add: mantissa_text_def split_on_notin)
  next
    case False
    have a: "0x2E \<notin> set (sign_text neg @ digits_text (take 1 ds))"
      using digits_text_free(3) [OF t1] by (auto simp: sign_text_def)
    have b: "0x2E \<notin> set (digits_text (drop 1 ds))"
      using digits_text_free(3) [OF d1] by auto
    have "split_on 0x2E ((sign_text neg @ digits_text (take 1 ds)) @ 0x2E # digits_text (drop 1 ds))
          = (sign_text neg @ digits_text (take 1 ds)) # split_on 0x2E (digits_text (drop 1 ds))"
      by (rule split_on_append [OF a])
    then show ?thesis using False split_on_notin [OF b] by (simp add: mantissa_text_def)
  qed
  have k1: "?k = 1 \<Longrightarrow> digits_text (drop 1 ds) = [] \<and> digits_text (take 1 ds) = digits_text ds"
    by (cases ds) (auto simp: digits_text_def)
  have rm: "remove_first 0x2D (sign_text neg @ digits_text (take 1 ds)) = digits_text (take 1 ds)"
    using digits_text_free(4) [OF t1]
    by (auto simp: remove_first_def sign_text_def remove1_idem)
  have intPart: "remove_first 0x2D (hd (split_on 0x2E (sign_text neg @ mantissa_text ds)))
        = digits_text (take 1 ds)"
    using rm k1 by (auto simp: parts)
  have fracPart: "(case tl (split_on 0x2E (sign_text neg @ mantissa_text ds)) of [] \<Rightarrow> [] | f # _ \<Rightarrow> f)
        = digits_text (drop 1 ds)"
    using k1 by (auto simp: parts)
  have all: "digits_text (take 1 ds) @ digits_text (drop 1 ds) = digits_text ds"
    by (rule digits_text_take_drop)
  have lenfrac: "int (length (digits_text (drop 1 ds))) = int ?k - 1"
    using ds(1) by (cases ds) auto
  have body: "(if e > 0 then
                   (if int (length (digits_text (drop 1 ds))) \<le> e
                    then digits_text (take 1 ds) @ digits_text (drop 1 ds)
                         @ zeros (nat (e - int (length (digits_text (drop 1 ds)))))
                    else digits_text (take 1 ds) @ take (nat e) (digits_text (drop 1 ds)) @ [0x2E]
                         @ drop (nat e) (digits_text (drop 1 ds)))
                 else
                   (if nat \<bar>e\<bar> \<ge> length (digits_text ds)
                    then [0x30, 0x2E] @ zeros (nat \<bar>e\<bar> - length (digits_text ds)) @ digits_text ds
                    else take (length (digits_text ds) - nat \<bar>e\<bar>) (digits_text ds) @ [0x2E]
                         @ drop (length (digits_text ds) - nat \<bar>e\<bar>) (digits_text ds)))
        = expanded ds e"
  proof (cases "e > 0")
    case True
    have tk: "digits_text (take 1 ds) @ take (nat e) (digits_text (drop 1 ds))
              = digits_text (take (Suc (nat e)) ds)"
      using ds(1) by (cases ds) (auto simp: digits_text_def take_map)
    have dr: "drop (nat e) (digits_text (drop 1 ds)) = digits_text (drop (Suc (nat e)) ds)"
      using ds(1) by (cases ds) (auto simp: digits_text_def drop_map)
    show ?thesis
      using True lenfrac tk dr all by (auto simp: expanded_def)
  next
    case False
    then show ?thesis
      by (auto simp: expanded_def Let_def take_digits_text drop_digits_text)
  qed
  have "expand_exponent ?str neg =
          (if neg \<and> \<not> startsWith (expanded ds e) 0x2D then [0x2D] @ expanded ds e
           else expanded ds e)"
    by (simp only: expand_exponent_def low pieces Let_def list.sel list.case pe option.case
          intPart fracPart all body)
  then show ?thesis
    using expanded_not_minus [OF ds, of e] by (simp add: sign_text_def)
qed

lemma zeros_free: "0x65 \<notin> set (zeros n)" "0x45 \<notin> set (zeros n)" "0x2E \<notin> set (zeros n)"
  by (auto simp: zeros_def)

lemma last_digits_text:
  assumes "r \<noteq> []" "list_all (\<lambda>d. d < 10) r" "last r \<noteq> 0"
  shows "last (digits_text r) \<noteq> 0x30" "last (digits_text r) \<noteq> 0x2E" "digits_text r \<noteq> []"
proof -
  have l: "last (digits_text r) = digit_unit (last r)"
    using assms(1) by (simp add: digits_text_def last_map)
  have lt: "last r < 10" using assms(1,2) by (auto simp: list_all_iff)
  show "last (digits_text r) \<noteq> 0x30" using l digit_unit_zero_iff [OF lt] assms(3) by simp
  show "last (digits_text r) \<noteq> 0x2E" using l digit_unit_cases(3) [OF lt] by simp
  show "digits_text r \<noteq> []" using assms(1) by (simp add: digits_text_def)
qed

lemma dotted_well_formed:
  assumes a: "0x65 \<notin> set a" "0x45 \<notin> set a"
    and r: "r \<noteq> []" "list_all (\<lambda>d. d < 10) r" "last r \<noteq> 0"
  shows "well_formed_text (a @ [0x2E] @ digits_text r)"
  using a last_digits_text [OF r] digits_text_free(1,2) [OF r(2)]
  by (simp add: well_formed_text_def)

lemma drop_facts:
  assumes "ds \<noteq> []" "list_all (\<lambda>d. d < 10) ds" "last ds \<noteq> 0" "i < length ds"
  shows "drop i ds \<noteq> []" "list_all (\<lambda>d. d < 10) (drop i ds)" "last (drop i ds) \<noteq> 0"
  using assms by (auto simp: list_all_iff dest: in_set_dropD)

lemma expanded_well_formed:
  assumes ds: "ds \<noteq> []" "list_all (\<lambda>d. d < 10) ds" "last ds \<noteq> 0" and e: "e \<noteq> 0"
  shows "well_formed_text (expanded ds e)"
proof -
  note free = digits_text_free(1,2,3) [OF ds(2)]
  have tfree: "\<And>i. 0x65 \<notin> set (digits_text (take i ds)) \<and> 0x45 \<notin> set (digits_text (take i ds))"
    using digits_text_free(1,2) [OF list_all_take_drop(1) [OF ds(2)]] by blast
  consider (a) "e > 0" "int (length ds) - 1 \<le> e"
    | (b) "e > 0" "\<not> int (length ds) - 1 \<le> e"
    | (c) "e < 0" "nat \<bar>e\<bar> \<ge> length ds"
    | (d) "e < 0" "\<not> nat \<bar>e\<bar> \<ge> length ds"
    using e by linarith
  then show ?thesis
  proof cases
    case a
    then show ?thesis using free zeros_free by (simp add: expanded_def well_formed_text_def)
  next
    case b
    then have i: "Suc (nat e) < length ds" by linarith
    have "well_formed_text (digits_text (take (Suc (nat e)) ds) @ [0x2E] @ digits_text (drop (Suc (nat e)) ds))"
      by (rule dotted_well_formed) (use tfree drop_facts [OF ds i] in auto)
    then show ?thesis using b by (simp add: expanded_def)
  next
    case c
    have "well_formed_text (([0x30, 0x2E] @ zeros (nat \<bar>e\<bar> - length ds)) @ digits_text ds)"
      using free zeros_free last_digits_text [OF ds] by (simp add: well_formed_text_def)
    then show ?thesis using c by (simp add: expanded_def)
  next
    case d
    then have i: "length ds - nat \<bar>e\<bar> < length ds" by linarith
    have "well_formed_text (digits_text (take (length ds - nat \<bar>e\<bar>) ds) @ [0x2E]
            @ digits_text (drop (length ds - nat \<bar>e\<bar>) ds))"
      by (rule dotted_well_formed) (use tfree drop_facts [OF ds i] in auto)
    then show ?thesis using d by (simp add: expanded_def)
  qed
qed

lemma plain_text_well_formed:
  assumes ds: "ds \<noteq> []" "list_all (\<lambda>d. d < 10) ds" "last ds \<noteq> 0"
  shows "well_formed_text (plain_text ds n)"
proof -
  note free = digits_text_free(1,2,3) [OF ds(2)]
  have tfree: "\<And>i. 0x65 \<notin> set (digits_text (take i ds)) \<and> 0x45 \<notin> set (digits_text (take i ds))"
    using digits_text_free(1,2) [OF list_all_take_drop(1) [OF ds(2)]] by blast
  consider (a) "int (length ds) \<le> n" "n \<le> 21"
    | (b) "\<not> int (length ds) \<le> n" "0 < n" "n \<le> 21"
    | (c) "- 6 < n" "n \<le> 0"
    | (d) "n > 21 \<or> n \<le> - 6"
    by linarith
  then show ?thesis
  proof cases
    case a
    then show ?thesis using free zeros_free by (simp add: plain_text_def well_formed_text_def)
  next
    case b
    then have i: "nat n < length ds" by linarith
    have "well_formed_text (digits_text (take (nat n) ds) @ [0x2E] @ digits_text (drop (nat n) ds))"
      by (rule dotted_well_formed) (use tfree drop_facts [OF ds i] in auto)
    then show ?thesis using b by (simp add: plain_text_def)
  next
    case c
    have "well_formed_text (([0x30, 0x2E] @ zeros (nat (- n))) @ digits_text ds)"
      using free zeros_free last_digits_text [OF ds] by (simp add: well_formed_text_def)
    moreover have "\<not> int (length ds) \<le> n" using c ds(1) by (cases ds) auto
    ultimately show ?thesis using c by (simp add: plain_text_def Let_def)
  next
    case d
    then have "n - 1 \<noteq> 0" by linarith
    from expanded_well_formed [OF ds this] show ?thesis
      using d by (auto simp: plain_text_def Let_def)
  qed
qed

lemma plain_text_integral:
  assumes ds: "list_all (\<lambda>d. d < 10) ds" and int: "int (length ds) \<le> n"
  shows "0x2E \<notin> set (plain_text ds n)"
  using digits_text_free(3) [OF ds] zeros_free(3) int
  by (auto simp: plain_text_def expanded_def Let_def)

lemma strip_trailing_zeros_id: "s \<noteq> [] \<Longrightarrow> last s \<noteq> 0x30 \<Longrightarrow> strip_trailing_zeros s = s"
proof -
  assume a: "s \<noteq> []" "last s \<noteq> 0x30"
  then have "dropWhile (\<lambda>c. c = 0x30) (rev s) = rev s"
    by (cases "rev s") (auto simp: last_rev [symmetric] simp del: last_rev)
  then show ?thesis by (simp add: strip_trailing_zeros_def)
qed

lemma well_formed_sign: "well_formed_text s \<Longrightarrow> well_formed_text (sign_text neg @ s)"
  by (auto simp: well_formed_text_def sign_text_def)

lemma unsigned_text_cases:
  "unsigned_text ds n =
     (if - 6 < n \<and> n \<le> 21 then plain_text ds n
      else mantissa_text ds @ [0x65] @ (if n - 1 < 0 then [0x2D] else [0x2B]) @ show_nat (nat \<bar>n - 1\<bar>))"
  by (auto simp: unsigned_text_def plain_text_def mantissa_text_def Let_def)

lemma normalizeFloat_Finite:
  assumes ds: "ds \<noteq> []" "list_all (\<lambda>d. d < 10) ds" "last ds \<noteq> 0"
  shows "normalizeFloat (Finite neg ds n) = Inr (sign_text neg @ plain_text ds n)"
proof -
  let ?out = "sign_text neg @ plain_text ds n"
  have wf: "well_formed_text ?out"
    by (rule well_formed_sign [OF plain_text_well_formed [OF ds]])
  have strip: "(if 0x2E \<in> set ?out then strip_trailing_zeros ?out else ?out) = ?out"
    using wf strip_trailing_zeros_id [of ?out] by (auto simp: well_formed_text_def)
  have str: "numberToString (Finite neg ds n) = sign_text neg @ unsigned_text ds n"
    by (simp add: sign_text_def)
  have expand: "(if 0x65 \<in> set (sign_text neg @ unsigned_text ds n) \<or> 0x45 \<in> set (sign_text neg @ unsigned_text ds n)
                 then expand_exponent (sign_text neg @ unsigned_text ds n) neg
                 else sign_text neg @ unsigned_text ds n) = ?out"
  proof (cases "- 6 < n \<and> n \<le> 21")
    case True
    then have "unsigned_text ds n = plain_text ds n" by (simp add: unsigned_text_cases)
    then show ?thesis using wf by (simp add: well_formed_text_def)
  next
    case False
    let ?esign = "if n - 1 < 0 then [0x2D] else [0x2B :: code_unit]"
    let ?m = "nat \<bar>n - 1\<bar>"
    from False have range: "n \<le> - 6 \<or> 21 < n" by linarith
    have u: "unsigned_text ds n = mantissa_text ds @ [0x65] @ ?esign @ show_nat ?m"
      using range by (auto simp: unsigned_text_cases)
    have e: "?esign = [0x2D] \<and> n - 1 = - int ?m \<or> ?esign = [0x2B] \<and> n - 1 = int ?m"
      by auto
    have "expand_exponent (sign_text neg @ mantissa_text ds @ [0x65] @ ?esign @ show_nat ?m) neg
          = sign_text neg @ expanded ds (n - 1)"
      by (rule expand_exponent_sci [OF ds(1,2) e])
    moreover have "plain_text ds n = expanded ds (n - 1)"
      using range by (auto simp: plain_text_def Let_def)
    ultimately show ?thesis by (simp add: u)
  qed
  show ?thesis
    unfolding normalizeFloat_def str Let_def
    by (simp only: expand strip is_negative.simps jsnum.distinct isFinite.simps if_False not_True_eq_False simp_thms)
qed

lemma canonicalize_Finite:
  assumes "wf_num (Finite neg ds n)"
  shows "canonicalize (JNum (Finite neg ds n)) = Inr (sign_text neg @ plain_text ds n)"
  using assms by (simp add: canonicalize_def normalizeFloat_Finite)

section \<open>Claims about number canonicalization\<close>

text \<open>
  C7. Number canonicalization uses no exponent notation and no insignificant trailing
  zeros, and an integral value carries no decimal point: for every finite number
  \<open>x\<close>, the canonical text contains neither \<open>e\<close> nor \<open>E\<close>, does not end in \<open>0\<close> or in a
  dot when it contains a dot, and contains no dot when \<open>x\<close> is an integer. Concretely
  \<open>1000.0\<close> and \<open>1e3\<close> (one number, digits \<open>1\<close> and exponent \<open>4\<close>) give \<open>1000\<close>,
  \<open>1.50\<close> gives \<open>1.5\<close> and \<open>0.0001\<close> gives \<open>0.0001\<close>.
\<close>

theorem C7_number_format:
  "(wf_num x \<and> isFinite x \<longrightarrow>
      (\<exists>s. canonicalize (JNum x) = Inr s \<and> s \<noteq> [] \<and> 0x65 \<notin> set s \<and> 0x45 \<notin> set s
         \<and> (0x2E \<in> set s \<longrightarrow> last s \<noteq> 0x30 \<and> last s \<noteq> 0x2E)
         \<and> (is_integral x \<longrightarrow> 0x2E \<notin> set s)))
   \<and> canonicalize (JNum (Finite False [1] 4)) = Inr (lit ''1000'')
   \<and> canonicalize (JNum (Finite False [1, 5] 1)) = Inr (lit ''1.5'')
   \<and> canonicalize (JNum (Finite False [1] (- 3))) = Inr (lit ''0.0001'')"
proof (intro conjI impI)
  assume x: "wf_num x \<and> isFinite x"
  show "\<exists>s. canonicalize (JNum x) = Inr s \<and> s \<noteq> [] \<and> 0x65 \<notin> set s \<and> 0x45 \<notin> set s
         \<and> (0x2E \<in> set s \<longrightarrow> last s \<noteq> 0x30 \<and> last s \<noteq> 0x2E)
         \<and> (is_integral x \<longrightarrow> 0x2E \<notin> set s)"
  proof (cases x)
    case Zero
    then show ?thesis by (simp add: canonicalize_def normalizeFloat_def lit_def)
  next
    case (Finite neg ds n)
    with x have ds: "ds \<noteq> []" "list_all (\<lambda>d. d < 10) ds" "last ds \<noteq> 0" by simp_all
    let ?s = "sign_text neg @ plain_text ds n"
    have c: "canonicalize (JNum x) = Inr ?s"
      using x Finite by (simp add: canonicalize_Finite)
    have wf: "well_formed_text ?s"
      by (rule well_formed_sign [OF plain_text_well_formed [OF ds]])
    have ne: "plain_text ds n \<noteq> []"
      using ds(1) by (auto simp: plain_text_def expanded_def digits_text_def Let_def)
    have int: "is_integral x \<longrightarrow> 0x2E \<notin> set ?s"
      using plain_text_integral [OF ds(2), of n] Finite by (auto simp: sign_text_def)
    show ?thesis
      using c wf ne int by (auto simp: well_formed_text_def)
  qed (use x in auto)
next
  show "canonicalize (JNum (Finite False [1] 4)) = Inr (lit ''1000'')"
    by code_simp
  show "canonicalize (JNum (Finite False [1, 5] 1)) = Inr (lit ''1.5'')"
    by code_simp
  show "canonicalize (JNum (Finite False [1] (- 3))) = Inr (lit ''0.0001'')"
    by code_simp
qed

text \<open>
  The number \<open>1e21\<close> prints as \<open>1e+21\<close> and is an integer: its canonical text is a
  digit one followed by 21 zeros.
\<close>

theorem C7_number_format_witness:
  "wf_num (Finite False [1] 22) \<and> isFinite (Finite False [1] 22)
   \<and> is_integral (Finite False [1] 22)
   \<and> canonicalize (JNum (Finite False [1] 22)) = Inr (lit ''1000000000000000000000'')
   \<and> (\<exists>s. canonicalize (JNum (Finite False [1] 22)) = Inr s \<and> s \<noteq> [] \<and> 0x65 \<notin> set s
         \<and> 0x45 \<notin> set s \<and> (0x2E \<in> set s \<longrightarrow> last s \<noteq> 0x30 \<and> last s \<noteq> 0x2E)
         \<and> (is_integral (Finite False [1] 22) \<longrightarrow> 0x2E \<notin> set s))"
proof -
  have h: "wf_num (Finite False [1] 22) \<and> isFinite (Finite False [1] 22)" by simp
  have v: "canonicalize (JNum (Finite False [1] 22)) = Inr (lit ''1000000000000000000000'')"
    by code_simp
  from C7_number_format [of "Finite False [1] 22", THEN conjunct1, rule_format, OF h]
  show ?thesis using h v by simp
qed

text \<open>
  The form is what is proved above, not the digits. A number below \<open>1e-6\<close> prints in
  exponent notation, and the expansion puts as many zeros after \<^verbatim>\<open>0.\<close> as the
  exponent less the number of digits. With one digit that is the number itself
  (\<open>1e-7\<close>); with two it is one zero short, and \<open>1.5e-7\<close> comes out as
  \<^verbatim>\<open>0.0000015\<close>.
\<close>

lemma normalizeFloat_two_digits_below_one_millionth:
  "canonicalize (JNum (Finite False [1] (- 6))) = Inr (lit ''0.0000001'')
   \<and> canonicalize (JNum (Finite False [1, 5] (- 6))) = Inr (lit ''0.0000015'')"
  by code_simp

text \<open>
  C1. The claim is that canonicalizing a non-finite number raises a
  CanonicalizeError. \<^verbatim>\<open>normalizeFloat\<close> does raise it, but \<^verbatim>\<open>canonicalize\<close> first
  copies its argument through JSON, which turns each non-finite number into
  \<^verbatim>\<open>null\<close>: the three non-finite numbers, alone or inside an array or an object,
  canonicalize to the text \<^verbatim>\<open>null\<close>.
\<close>

theorem C1_nonfinite_becomes_null:
  "canonicalize (JNum NaN) = Inr (lit ''null'')
   \<and> canonicalize (JNum (Infinity False)) = Inr (lit ''null'')
   \<and> canonicalize (JNum (Infinity True)) = Inr (lit ''null'')
   \<and> canonicalize (JArr [JNum NaN, JNum (Infinity False)]) = Inr (lit ''[null,null]'')
   \<and> canonicalize (JObj [(lit ''a'', JNum (Infinity True))])
       = Inr (lit ''{'' @ [0x22] @ lit ''a'' @ [0x22] @ lit '':null}'')
   \<and> serializeValue (JNum NaN)
       = Inl (CanonicalizeError (lit ''NaN is not allowed in canonical JSON''))
   \<and> serializeValue (JNum (Infinity False))
       = Inl (CanonicalizeError (lit ''Infinity is not allowed in canonical JSON''))"
  by (simp add: canonicalize_def normalizeFloat_def serializeString_def escape_unit_def lit_def)

section \<open>Properties of object canonicalization and hashing\<close>

lemma collect_map_Inr: "collect (map (\<lambda>x. Inr (f x)) xs) = Inr (map f xs)"
  by (induction xs) auto

lemma collect_all_Inr:
  "(\<And>x. x \<in> set xs \<Longrightarrow> \<exists>v. g x = Inr v) \<Longrightarrow> \<exists>vs. collect (map g xs) = Inr vs"
proof (induction xs)
  case Nil
  then show ?case by simp
next
  case (Cons x xs)
  then obtain v where v: "g x = Inr v" by auto
  from Cons obtain vs where "collect (map g xs) = Inr vs" by auto
  with v show ?case by simp
qed

lemma normalizeFloat_finite_total: "isFinite n \<Longrightarrow> \<exists>s. normalizeFloat n = Inr s"
  by (cases n) (auto simp: normalizeFloat_def Let_def)

lemma serialize_copy_total:
  "\<not> omitted v \<Longrightarrow> \<exists>s. serializeValue (jsonCopy v) = Inr s"
proof (induction v)
  case (JNum n)
  then show ?case using normalizeFloat_finite_total [of n] by auto
next
  case (JArr xs)
  have "\<exists>vs. collect (map serializeValue (map (\<lambda>x. if omitted x then JNull else jsonCopy x) xs)) = Inr vs"
    unfolding map_map by (rule collect_all_Inr) (use JArr.IH in auto)
  then show ?case by auto
next
  case (JObj kvs)
  let ?copy = "map (\<lambda>(k, v). (k, jsonCopy v)) (filter (\<lambda>(k, v). \<not> omitted v) kvs)"
  let ?entry = "\<lambda>key. case (case map_of ?copy key of None \<Rightarrow> Inr (lit ''null'')
                           | Some v \<Rightarrow> serializeValue v) of
                       Inl e \<Rightarrow> Inl e
                     | Inr valStr \<Rightarrow> Inr (serializeString key @ [0x3A] @ valStr)"
  have "\<exists>s. ?entry key = Inr s" for key
  proof (cases "map_of ?copy key")
    case None
    then show ?thesis by simp
  next
    case (Some w)
    then have "(key, w) \<in> set ?copy" by (rule map_of_SomeD)
    then obtain v where v: "(key, v) \<in> set kvs" "\<not> omitted v" "w = jsonCopy v" by auto
    from JObj.IH [of "(key, v)" v] v obtain s where "serializeValue w = Inr s" by auto
    with Some show ?thesis by simp
  qed
  then have "\<exists>vs. collect (map ?entry (sort (map fst ?copy))) = Inr vs"
    by (intro collect_all_Inr) auto
  then show ?case by auto
qed auto

lemma canonicalize_total: "\<not> omitted v \<Longrightarrow> \<exists>s. canonicalize v = Inr s"
  by (simp add: canonicalize_def serialize_copy_total)

lemma copied_keys: "map fst (copied kvs) = map fst (filter (\<lambda>(k, v). \<not> omitted v) kvs)"
  by (induction kvs) (auto simp: copied_def)

lemma distinct_copied: "distinct (map fst kvs) \<Longrightarrow> distinct (map fst (copied kvs))"
  unfolding copied_keys by (rule distinct_map_filter)

lemma set_copied: "set (copied kvs) = (\<lambda>(k, v). (k, jsonCopy v)) ` {kv \<in> set kvs. \<not> omitted (snd kv)}"
  by (auto simp: copied_def)

lemma canonicalize_JObj:
  "canonicalize (JObj kvs) =
     (case collect
             (map (\<lambda>key.
                     case (case map_of (copied kvs) key of None \<Rightarrow> Inr (lit ''null'')
                           | Some v \<Rightarrow> serializeValue v) of
                       Inl e \<Rightarrow> Inl e
                     | Inr valStr \<Rightarrow> Inr (serializeString key @ [0x3A] @ valStr))
                (sort (map fst (copied kvs)))) of
        Inl e \<Rightarrow> Inl e
      | Inr parts \<Rightarrow> Inr ([0x7B] @ join_with [0x2C] parts @ [0x7D]))"
  by (simp add: canonicalize_def copied_def)

lemma sort_keys_unique:
  assumes "distinct (xs :: jsstring list)" "distinct ys" "set xs = set ys"
  shows "sort xs = sort ys"
  using assms by (intro sorted_distinct_set_unique) auto

lemma canonicalize_order_insensitive:
  assumes "distinct (map fst m1)" "distinct (map fst m2)" "set m1 = set m2"
  shows "canonicalize (JObj m1) = canonicalize (JObj m2)"
proof -
  have d1: "distinct (map fst (copied m1))" and d2: "distinct (map fst (copied m2))"
    using assms(1,2) by (simp_all add: distinct_copied)
  have s: "set (copied m1) = set (copied m2)"
    using assms(3) by (simp add: set_copied)
  have m: "map_of (copied m1) = map_of (copied m2)"
    using d1 d2 s by (simp add: map_of_inject_set)
  have "set (map fst (copied m1)) = set (map fst (copied m2))"
    using s by simp
  then have k: "sort (map fst (copied m1)) = sort (map fst (copied m2))"
    using d1 d2 by (intro sort_keys_unique) auto
  show ?thesis by (simp only: canonicalize_JObj m k)
qed

lemma map_of_copied:
  assumes "distinct (map fst kvs)" "(k, v) \<in> set kvs" "\<not> omitted v"
  shows "map_of (copied kvs) k = Some (jsonCopy v)"
proof -
  have "(k, jsonCopy v) \<in> set (copied kvs)" using assms(2,3) by (force simp: set_copied)
  then show ?thesis using distinct_copied [OF assms(1)] by simp
qed

lemma canonicalize_object_sorted:
  assumes d: "distinct (map fst m)"
  shows "\<exists>ks texts.
          sorted_wrt (<) ks \<and> set ks = {k. \<exists>v. (k, v) \<in> set m \<and> \<not> omitted v}
          \<and> (\<forall>k v. (k, v) \<in> set m \<and> \<not> omitted v \<longrightarrow> canonicalize v = Inr (texts k))
          \<and> canonicalize (JObj m)
              = Inr ([0x7B] @ join_with [0x2C] (map (\<lambda>k. serializeString k @ [0x3A] @ texts k) ks)
                     @ [0x7D])"
proof -
  let ?ks = "sort (map fst (copied m))"
  define texts where "texts k = projr (canonicalize (the (map_of m k)))" for k
  have texts: "canonicalize v = Inr (texts k)" if "(k, v) \<in> set m" "\<not> omitted v" for k v
  proof -
    from that(1) d have "map_of m k = Some v" by simp
    moreover from canonicalize_total [OF that(2)] obtain s where "canonicalize v = Inr s" ..
    ultimately show ?thesis by (simp add: texts_def)
  qed
  have keys: "set ?ks = {k. \<exists>v. (k, v) \<in> set m \<and> \<not> omitted v}"
    by (force simp: copied_keys)
  have strict: "sorted_wrt (<) ?ks"
    using distinct_copied [OF d] by (simp add: strict_sorted_iff)
  have entry: "(case (case map_of (copied m) key of None \<Rightarrow> Inr (lit ''null'')
                           | Some v \<Rightarrow> serializeValue v) of
                       Inl e \<Rightarrow> Inl e
                     | Inr valStr \<Rightarrow> Inr (serializeString key @ [0x3A] @ valStr))
               = Inr (serializeString key @ [0x3A] @ texts key)" if "key \<in> set ?ks" for key
  proof -
    from that keys obtain v where v: "(key, v) \<in> set m" "\<not> omitted v" by auto
    have "serializeValue (jsonCopy v) = Inr (texts key)"
      using texts [OF v] v(2) by (simp add: canonicalize_def)
    then show ?thesis by (simp add: map_of_copied [OF d v])
  qed
  have "map (\<lambda>key. case (case map_of (copied m) key of None \<Rightarrow> Inr (lit ''null'')
                           | Some v \<Rightarrow> serializeValue v) of
                       Inl e \<Rightarrow> Inl e
                     | Inr valStr \<Rightarrow> Inr (serializeString key @ [0x3A] @ valStr)) ?ks
        = map (\<lambda>key. Inr (serializeString key @ [0x3A] @ texts key)) ?ks"
    by (rule map_cong [OF refl entry])
  then have "canonicalize (JObj m)
      = Inr ([0x7B] @ join_with [0x2C] (map (\<lambda>k. serializeString k @ [0x3A] @ texts k) ?ks) @ [0x7D])"
    by (simp only: canonicalize_JObj collect_map_Inr sum.case)
  with strict keys texts show ?thesis by blast
qed

lemma obj_set_fresh: "key \<notin> fst ` set kvs \<Longrightarrow> obj_set kvs key val = kvs @ [(key, val)]"
  by (induction kvs key val rule: obj_set.induct) auto

lemma cleanPayload_foldl:
  "distinct (map fst payload) \<Longrightarrow> fst ` set acc \<inter> fst ` set payload = {} \<Longrightarrow>
   foldl (\<lambda>clean (key, val). if is_excluded key then clean else obj_set clean key val) acc payload
   = acc @ filter (\<lambda>(k, v). \<not> is_excluded k) payload"
proof (induction payload arbitrary: acc)
  case Nil
  then show ?case by simp
next
  case (Cons kv payload)
  obtain k v where kv: "kv = (k, v)" by (cases kv)
  show ?case
  proof (cases "is_excluded k")
    case True
    then show ?thesis using Cons kv by auto
  next
    case False
    have fresh: "k \<notin> fst ` set acc" using Cons.prems(2) kv by auto
    have "fst ` set (acc @ [(k, v)]) \<inter> fst ` set payload = {}"
      using Cons.prems kv by auto
    with Cons.IH [of "acc @ [(k, v)]"] Cons.prems(1) False kv obj_set_fresh [OF fresh]
    show ?thesis by simp
  qed
qed

lemma cleanPayload_filter:
  "distinct (map fst payload) \<Longrightarrow> cleanPayload payload = filter (\<lambda>(k, v). \<not> is_excluded k) payload"
  using cleanPayload_foldl [of payload "[]"] by (simp add: cleanPayload_def)

lemma filter_obj_set_excluded:
  "is_excluded key \<Longrightarrow>
   filter (\<lambda>(k, v). \<not> is_excluded k) (obj_set kvs key val) = filter (\<lambda>(k, v). \<not> is_excluded k) kvs"
  by (induction kvs key val rule: obj_set.induct) auto

lemma keys_obj_set: "fst ` set (obj_set kvs key val) = insert key (fst ` set kvs)"
  by (induction kvs key val rule: obj_set.induct) auto

lemma distinct_obj_set: "distinct (map fst kvs) \<Longrightarrow> distinct (map fst (obj_set kvs key val))"
proof (induction kvs)
  case Nil
  then show ?case by simp
next
  case (Cons kv kvs)
  obtain k v where kv: "kv = (k, v)" by (cases kv)
  have "fst ` set (obj_set kvs key val) = insert key (fst ` set kvs)" by (rule keys_obj_set)
  with Cons kv show ?case by auto
qed

section \<open>Claims about objects and request hashes\<close>

text \<open>
  C2, as stated: the entries are emitted with the keys in UTF-8 byte order. The keys
  \<open>U+FF5E\<close> and \<open>U+1F600\<close> (the surrogate pair \<open>D83D DE00\<close>) refute it: the pair is
  emitted first, since its first code unit is the smaller one, while its UTF-8
  encoding \<open>F0 9F 98 80\<close> is the greater one (\<open>U+FF5E\<close> is \<open>EF BD 9E\<close>).
\<close>

theorem C2_utf8_order_counterexample:
  "canonicalize (JObj [([0xFF5E], JNull), ([0xD83D, 0xDE00], JNull)])
     = Inr [0x7B, 0x22, 0xD83D, 0xDE00, 0x22, 0x3A, 0x6E, 0x75, 0x6C, 0x6C, 0x2C,
            0x22, 0xFF5E, 0x22, 0x3A, 0x6E, 0x75, 0x6C, 0x6C, 0x7D]
   \<and> utf8_encode [0xFF5E] = [0xEF, 0xBD, 0x9E]
   \<and> utf8_encode [0xD83D, 0xDE00] = [0xF0, 0x9F, 0x98, 0x80]
   \<and> utf8_encode [0xFF5E] < utf8_encode [0xD83D, 0xDE00]"
proof -
  have out: "canonicalize (JObj [([0xFF5E], JNull), ([0xD83D, 0xDE00], JNull)])
     = Inr [0x7B, 0x22, 0xD83D, 0xDE00, 0x22, 0x3A, 0x6E, 0x75, 0x6C, 0x6C, 0x2C,
            0x22, 0xFF5E, 0x22, 0x3A, 0x6E, 0x75, 0x6C, 0x6C, 0x7D]"
    by (simp add: canonicalize_def serializeString_def escape_unit_def lit_def)
  have a: "utf8_encode [0xFF5E] = [0xEF, 0xBD, 0x9E]"
    by (simp add: utf8_encode_def utf8_bytes_def scalar_of_def is_high_surrogate_def
        is_low_surrogate_def)
  have b: "utf8_encode [0xD83D, 0xDE00] = [0xF0, 0x9F, 0x98, 0x80]"
    by (simp add: utf8_encode_def utf8_bytes_def scalar_of_def is_high_surrogate_def
        is_low_surrogate_def)
  have "[0xEF, 0xBD, 0x9E] < [0xF0, 0x9F, 0x98, 0x80 :: byte]"
    by simp
  with out a b show ?thesis by simp
qed

text \<open>
  C2, amended: the entries of a mapping are emitted with the keys in strictly
  ascending lexicographic order of their UTF-16 code units (the order \<open><\<close> on
  strings), each key once, as \<open>"key":text\<close> joined by commas inside braces, where the
  text is the canonical form of the key's value (properties whose value is
  \<^verbatim>\<open>undefined\<close> or a function are left out); and two mappings that are equal as sets
  of key-value pairs have the same canonical form.
\<close>

theorem C2_keys_in_code_unit_order:
  "(distinct (map fst m) \<longrightarrow>
      (\<exists>ks texts.
          sorted_wrt (<) ks \<and> set ks = {k. \<exists>v. (k, v) \<in> set m \<and> \<not> omitted v}
          \<and> (\<forall>k v. (k, v) \<in> set m \<and> \<not> omitted v \<longrightarrow> canonicalize v = Inr (texts k))
          \<and> canonicalize (JObj m)
              = Inr ([0x7B] @ join_with [0x2C] (map (\<lambda>k. serializeString k @ [0x3A] @ texts k) ks)
                     @ [0x7D])))
   \<and> (distinct (map fst m1) \<and> distinct (map fst m2) \<and> set m1 = set m2 \<longrightarrow>
        canonicalize (JObj m1) = canonicalize (JObj m2))"
  using canonicalize_object_sorted [of m] canonicalize_order_insensitive [of m1 m2] by blast

theorem C2_keys_in_code_unit_order_witness:
  "distinct (map fst [(lit ''b'', JBool True), (lit ''a'', JNull)])
   \<and> distinct (map fst [(lit ''a'', JNull), (lit ''b'', JBool True)])
   \<and> set [(lit ''b'', JBool True), (lit ''a'', JNull)] = set [(lit ''a'', JNull), (lit ''b'', JBool True)]
   \<and> canonicalize (JObj [(lit ''b'', JBool True), (lit ''a'', JNull)])
       = canonicalize (JObj [(lit ''a'', JNull), (lit ''b'', JBool True)])
   \<and> (\<exists>ks texts.
          sorted_wrt (<) ks
          \<and> set ks = {k. \<exists>v. (k, v) \<in> set [(lit ''b'', JBool True), (lit ''a'', JNull)] \<and> \<not> omitted v}
          \<and> (\<forall>k v. (k, v) \<in> set [(lit ''b'', JBool True), (lit ''a'', JNull)] \<and> \<not> omitted v
                \<longrightarrow> canonicalize v = Inr (texts k))
          \<and> canonicalize (JObj [(lit ''b'', JBool True), (lit ''a'', JNull)])
              = Inr ([0x7B] @ join_with [0x2C] (map (\<lambda>k. serializeString k @ [0x3A] @ texts k) ks)
                     @ [0x7D]))"
proof -
  let ?m1 = "[(lit ''b'', JBool True), (lit ''a'', JNull)]"
  let ?m2 = "[(lit ''a'', JNull), (lit ''b'', JBool True)]"
  have d1: "distinct (map fst ?m1)" and d2: "distinct (map fst ?m2)"
    by (simp_all add: lit_def)
  have s: "set ?m1 = set ?m2" by auto
  from C2_keys_in_code_unit_order [of ?m1 ?m1 ?m2] d1 d2 s show ?thesis by blast
qed

text \<open>
  C3. \<^verbatim>\<open>computeRequestHash(payload)\<close> is \<^verbatim>\<open>computeHash\<close> of the payload without its
  excluded fields (the names of \<^verbatim>\<open>ACTION_EXCLUDE_FIELDS\<close> and every name that starts
  with an underscore); assigning any value to an excluded field leaves the hash
  unchanged; every field the claim names is excluded.
\<close>

theorem C3_request_hash_drops_ephemeral_fields:
  "(distinct (map fst payload) \<longrightarrow>
      computeRequestHash sha256 payload
        = computeHash sha256 (JObj (filter (\<lambda>(k, v). \<not> is_excluded k) payload)))
   \<and> (distinct (map fst payload) \<and> is_excluded key \<longrightarrow>
        computeRequestHash sha256 (obj_set payload key val) = computeRequestHash sha256 payload)
   \<and> (\<forall>name \<in> set [lit ''id'', lit ''approval_token'', lit ''created_at'', lit ''updated_at'',
          lit ''tenant_id'', lit ''project_id'', lit ''version'', lit ''decision'', lit ''status'',
          lit ''reason'', lit ''risk_level'', lit ''policy_version'', lit ''policy_hash'',
          lit ''profile_version'', lit ''profile_hash'', lit ''runtime_version'',
          lit ''provenance_id'', lit ''outcome'', lit ''reason_code'', lit ''reason_details'',
          lit ''request_hash'']. is_excluded name)
   \<and> (startsWith key 0x5F \<longrightarrow> is_excluded key)"
proof (intro conjI impI)
  assume d: "distinct (map fst payload)"
  show "computeRequestHash sha256 payload
        = computeHash sha256 (JObj (filter (\<lambda>(k, v). \<not> is_excluded k) payload))"
    by (simp add: computeRequestHash_def computeHash_def canonicalizeActionPayload_def
        cleanPayload_filter [OF d])
next
  assume a: "distinct (map fst payload) \<and> is_excluded key"
  then have "cleanPayload (obj_set payload key val) = cleanPayload payload"
    by (simp add: cleanPayload_filter distinct_obj_set filter_obj_set_excluded)
  then show "computeRequestHash sha256 (obj_set payload key val) = computeRequestHash sha256 payload"
    by (simp add: computeRequestHash_def canonicalizeActionPayload_def)
next
  show "\<forall>name \<in> set [lit ''id'', lit ''approval_token'', lit ''created_at'', lit ''updated_at'',
          lit ''tenant_id'', lit ''project_id'', lit ''version'', lit ''decision'', lit ''status'',
          lit ''reason'', lit ''risk_level'', lit ''policy_version'', lit ''policy_hash'',
          lit ''profile_version'', lit ''profile_hash'', lit ''runtime_version'',
          lit ''provenance_id'', lit ''outcome'', lit ''reason_code'', lit ''reason_details'',
          lit ''request_hash'']. is_excluded name"
    by (simp add: is_excluded_def ACTION_EXCLUDE_FIELDS_def)
next
  assume "startsWith key 0x5F"
  then show "is_excluded key" by (simp add: is_excluded_def)
qed

text \<open>
  A payload with an identity, a status and an underscore field beside its tool: the
  request hash is the hash of the tool entry alone, and setting \<open>request_hash\<close> does
  not change it. The digest stands in for SHA-256 here.
\<close>

theorem C3_request_hash_drops_ephemeral_fields_witness:
  "distinct (map fst [(lit ''id'', JStr (lit ''a1'')), (lit ''tool'', JStr (lit ''http'')),
                      (lit ''status'', JStr (lit ''allowed'')), (lit ''_trace'', JBool True)])
   \<and> is_excluded (lit ''request_hash'') \<and> startsWith (lit ''_trace'') 0x5F
   \<and> is_excluded (lit ''_trace'')
   \<and> computeRequestHash (map ucast)
        [(lit ''id'', JStr (lit ''a1'')), (lit ''tool'', JStr (lit ''http'')),
         (lit ''status'', JStr (lit ''allowed'')), (lit ''_trace'', JBool True)]
       = computeHash (map ucast) (JObj [(lit ''tool'', JStr (lit ''http''))])
   \<and> computeRequestHash (map ucast)
        (obj_set [(lit ''id'', JStr (lit ''a1'')), (lit ''tool'', JStr (lit ''http'')),
                  (lit ''status'', JStr (lit ''allowed'')), (lit ''_trace'', JBool True)]
           (lit ''request_hash'') (JStr (lit ''ff'')))
       = computeRequestHash (map ucast)
           [(lit ''id'', JStr (lit ''a1'')), (lit ''tool'', JStr (lit ''http'')),
            (lit ''status'', JStr (lit ''allowed'')), (lit ''_trace'', JBool True)]"
proof -
  let ?p = "[(lit ''id'', JStr (lit ''a1'')), (lit ''tool'', JStr (lit ''http'')),
             (lit ''status'', JStr (lit ''allowed'')), (lit ''_trace'', JBool True)]"
  have d: "distinct (map fst ?p)" by (simp add: lit_def)
  have u: "startsWith (lit ''_trace'') 0x5F" by (simp add: startsWith_def lit_def)
  have f: "filter (\<lambda>(k, v). \<not> is_excluded k) ?p = [(lit ''tool'', JStr (lit ''http''))]"
    by (simp add: is_excluded_def ACTION_EXCLUDE_FIELDS_def startsWith_def lit_def)
  note t = C3_request_hash_drops_ephemeral_fields
    [of ?p "map ucast" "lit ''request_hash''" "JStr (lit ''ff'')"]
  have e: "is_excluded (lit ''request_hash'')" using t by simp
  have e': "is_excluded (lit ''_trace'')"
    using C3_request_hash_drops_ephemeral_fields [of ?p "map ucast" "lit ''_trace''" JNull] u
    by blast
  from t d e have "computeRequestHash (map ucast) ?p
       = computeHash (map ucast) (JObj (filter (\<lambda>(k, v). \<not> is_excluded k) ?p))"
    and "computeRequestHash (map ucast) (obj_set ?p (lit ''request_hash'') (JStr (lit ''ff'')))
       = computeRequestHash (map ucast) ?p"
    by blast+
  with d e e' u f show ?thesis by simp
qed

section \<open>Properties of the transport executor\<close>

lemma attempts_append [simp]: "attempts (xs @ ys) = attempts xs @ attempts ys"
  by (induction xs rule: attempts.induct) auto

lemma waits_append [simp]: "waits (xs @ ys) = waits xs @ waits ys"
  by (induction xs rule: waits.induct) auto

lemma notify_quiet [simp]:
  "attempts (notify cb (\<lambda>c. CallOnError c err)) = []"
  "waits (notify cb (\<lambda>c. CallOnError c err)) = []"
  "attempts (notify cb (\<lambda>c. CallOnRequestEnd c method url st)) = []"
  "waits (notify cb (\<lambda>c. CallOnRequestEnd c method url st)) = []"
  "attempts (notify cb (\<lambda>c. CallOnRequestStart c method url)) = []"
  "waits (notify cb (\<lambda>c. CallOnRequestStart c method url)) = []"
  by (simp_all add: notify_def split: option.splits)

lemma one_pass_server_error:
  assumes "num_lt attempt (maxRetries config)" "is_server_error r"
  shows "\<exists>m evs. one_pass str config method path attempt r = Continue m evs
           \<and> attempts evs = [] \<and> waits evs = [waitTime (retryBackoffFactor config) attempt]"
proof -
  from assms(2) obtain e s d where r: "r = Rejected e" "ax_response e = Some (s, d)" "s \<ge> 500"
    by (auto simp: is_server_error_def split: attempt_result.splits option.splits)
  then have "s \<noteq> 401" "s \<noteq> 404" "s \<noteq> 422" "s \<noteq> 0" by auto
  with r assms(1) show ?thesis
    by (simp add: one_pass_def on_axios_error_def Let_def)
qed

lemma request_loop_Done:
  assumes "num_le attempt (maxRetries config)"
    and "one_pass str config method path attempt (transport attempt) = Done result evs"
  shows "request_loop str config transport method path attempt l = (result, Attempt attempt # evs)"
  using assms by (subst request_loop.simps) simp

lemma request_loop_Continue:
  assumes "num_le attempt (maxRetries config)"
    and "one_pass str config method path attempt (transport attempt) = Continue m evs"
  shows "request_loop str config transport method path attempt l =
         (fst (request_loop str config transport method path (Suc attempt) (Some m)),
          Attempt attempt # evs @ snd (request_loop str config transport method path (Suc attempt) (Some m)))"
  using assms by (subst request_loop.simps) (simp add: case_prod_beta)

lemma request_loop_prefix:
  assumes m: "maxRetries config = Some (Num (real M))" and k: "k \<le> M"
    and srv: "\<forall>i. a \<le> i \<and> i < k \<longrightarrow> is_server_error (transport i)" and a: "a \<le> k"
  shows "\<exists>last evs.
           request_loop str config transport method path a l =
             (fst (request_loop str config transport method path k last),
              evs @ snd (request_loop str config transport method path k last))
           \<and> attempts evs = [a..<k]
           \<and> waits evs = map (waitTime (retryBackoffFactor config)) [a..<k]"
  using srv a
proof (induction "k - a" arbitrary: a l)
  case 0
  then have "a = k" by simp
  then show ?case by (intro exI [of _ l] exI [of _ "[]"]) simp
next
  case (Suc n)
  then have ak: "a < k" by simp
  have le: "num_le a (maxRetries config)" using ak k by (simp add: num_le_def m)
  have lt: "num_lt a (maxRetries config)" using ak k by (simp add: num_lt_def m)
  have "is_server_error (transport a)" using Suc.prems ak by simp
  from one_pass_server_error [OF lt this, of str "method" path]
  obtain msg evs where p: "one_pass str config method path a (transport a) = Continue msg evs"
    "attempts evs = []" "waits evs = [waitTime (retryBackoffFactor config) a]" by blast
  have "n = k - Suc a" using Suc.hyps(2) by simp
  from Suc.hyps(1) [OF this, of "Some msg"] Suc.prems ak
  obtain last rest where ih:
    "request_loop str config transport method path (Suc a) (Some msg) =
       (fst (request_loop str config transport method path k last),
        rest @ snd (request_loop str config transport method path k last))"
    "attempts rest = [Suc a..<k]"
    "waits rest = map (waitTime (retryBackoffFactor config)) [Suc a..<k]"
    by auto
  have "request_loop str config transport method path a l =
          (fst (request_loop str config transport method path k last),
           (Attempt a # evs @ rest) @ snd (request_loop str config transport method path k last))"
    by (simp add: request_loop_Continue [where transport = transport and attempt = a, OF le p(1)] ih(1))
  moreover have "attempts (Attempt a # evs @ rest) = [a..<k]"
    using p(2) ih(2) ak by (simp add: upt_conv_Cons)
  moreover have "waits (Attempt a # evs @ rest) = map (waitTime (retryBackoffFactor config)) [a..<k]"
    using p(3) ih(3) ak by (simp add: upt_conv_Cons)
  ultimately show ?case by blast
qed

lemma makeRequest_after_server_errors:
  assumes m: "maxRetries config = Some (Num (real M))" and k: "k \<le> M"
    and srv: "\<forall>i<k. is_server_error (transport i)"
    and p: "one_pass str config method path k (transport k) = Done result evs"
  shows "fst (makeRequest str config transport method path) = result"
    and "attempts (snd (makeRequest str config transport method path)) = [0..<Suc k]"
    and "waits (snd (makeRequest str config transport method path))
         = map (waitTime (retryBackoffFactor config)) [0..<k] @ waits evs"
proof -
  from request_loop_prefix [OF m k, of 0 transport str "method" path None] srv
  obtain last pre where pre:
    "request_loop str config transport method path 0 None =
       (fst (request_loop str config transport method path k last),
        pre @ snd (request_loop str config transport method path k last))"
    "attempts pre = [0..<k]"
    "waits pre = map (waitTime (retryBackoffFactor config)) [0..<k]"
    by auto
  have le: "num_le k (maxRetries config)" using k by (simp add: num_le_def m)
  have at: "request_loop str config transport method path k last = (result, Attempt k # evs)"
    by (rule request_loop_Done [where transport = transport and attempt = k, OF le p])
  have ev: "attempts evs = []"
    using p by (auto simp: one_pass_def on_response_def on_axios_error_def on_thrown_def Let_def
        split: attempt_result.splits if_splits)
  show "fst (makeRequest str config transport method path) = result"
    by (simp add: makeRequest_def pre(1) at)
  show "attempts (snd (makeRequest str config transport method path)) = [0..<Suc k]"
    by (simp add: makeRequest_def pre at ev)
  show "waits (snd (makeRequest str config transport method path))
         = map (waitTime (retryBackoffFactor config)) [0..<k] @ waits evs"
    by (simp add: makeRequest_def pre at)
qed

lemma num_le_below:
  assumes "num_le k (maxRetries config)" "a < k"
  shows "num_le a (maxRetries config)" "num_lt a (maxRetries config)"
  using assms by (auto simp: num_le_def num_lt_def split: option.splits number.splits)

lemma request_loop_retried:
  assumes k: "num_le k (maxRetries config)"
    and srv: "\<forall>i. a \<le> i \<and> i < k \<longrightarrow> is_server_error (transport i)" and a: "a \<le> k"
  shows "\<exists>last evs.
           request_loop str config transport method path a l =
             (fst (request_loop str config transport method path k last),
              evs @ snd (request_loop str config transport method path k last))
           \<and> attempts evs = [a..<k]
           \<and> waits evs = map (waitTime (retryBackoffFactor config)) [a..<k]"
  using srv a
proof (induction "k - a" arbitrary: a l)
  case 0
  then have "a = k" by simp
  then show ?case by (intro exI [of _ l] exI [of _ "[]"]) simp
next
  case (Suc n)
  then have ak: "a < k" by simp
  have le: "num_le a (maxRetries config)" by (rule num_le_below(1) [OF k ak])
  have lt: "num_lt a (maxRetries config)" by (rule num_le_below(2) [OF k ak])
  have "is_server_error (transport a)" using Suc.prems ak by simp
  from one_pass_server_error [OF lt this, of str "method" path]
  obtain msg evs where p: "one_pass str config method path a (transport a) = Continue msg evs"
    "attempts evs = []" "waits evs = [waitTime (retryBackoffFactor config) a]" by blast
  have "n = k - Suc a" using Suc.hyps(2) by simp
  from Suc.hyps(1) [OF this, of "Some msg"] Suc.prems ak
  obtain last rest where ih:
    "request_loop str config transport method path (Suc a) (Some msg) =
       (fst (request_loop str config transport method path k last),
        rest @ snd (request_loop str config transport method path k last))"
    "attempts rest = [Suc a..<k]"
    "waits rest = map (waitTime (retryBackoffFactor config)) [Suc a..<k]"
    by auto
  have "request_loop str config transport method path a l =
          (fst (request_loop str config transport method path k last),
           (Attempt a # evs @ rest) @ snd (request_loop str config transport method path k last))"
    by (simp add: request_loop_Continue [where transport = transport and attempt = a, OF le p(1)] ih(1))
  moreover have "attempts (Attempt a # evs @ rest) = [a..<k]"
    using p(2) ih(2) ak by (simp add: upt_conv_Cons)
  moreover have "waits (Attempt a # evs @ rest) = map (waitTime (retryBackoffFactor config)) [a..<k]"
    using p(3) ih(3) ak by (simp add: upt_conv_Cons)
  ultimately show ?case by blast
qed

lemma makeRequest_after_retried:
  assumes k: "num_le k (maxRetries config)"
    and srv: "\<forall>i<k. is_server_error (transport i)"
    and p: "one_pass str config method path k (transport k) = Done result evs"
  shows "fst (makeRequest str config transport method path) = result"
    and "attempts (snd (makeRequest str config transport method path)) = [0..<Suc k]"
    and "waits (snd (makeRequest str config transport method path))
         = map (waitTime (retryBackoffFactor config)) [0..<k] @ waits evs"
proof -
  from request_loop_retried [OF k, of 0 transport str "method" path None] srv
  obtain last pre where pre:
    "request_loop str config transport method path 0 None =
       (fst (request_loop str config transport method path k last),
        pre @ snd (request_loop str config transport method path k last))"
    "attempts pre = [0..<k]"
    "waits pre = map (waitTime (retryBackoffFactor config)) [0..<k]"
    by auto
  have at: "request_loop str config transport method path k last = (result, Attempt k # evs)"
    by (rule request_loop_Done [where transport = transport and attempt = k, OF k p])
  have ev: "attempts evs = []"
    using p by (auto simp: one_pass_def on_response_def on_axios_error_def on_thrown_def Let_def
        split: attempt_result.splits if_splits)
  show "fst (makeRequest str config transport method path) = result"
    by (simp add: makeRequest_def pre(1) at)
  show "attempts (snd (makeRequest str config transport method path)) = [0..<Suc k]"
    by (simp add: makeRequest_def pre at ev)
  show "waits (snd (makeRequest str config transport method path))
         = map (waitTime (retryBackoffFactor config)) [0..<k] @ waits evs"
    by (simp add: makeRequest_def pre at)
qed

lemma one_pass_not_server_error:
  assumes "\<not> is_server_error (Rejected e)"
  shows "\<exists>err evs. one_pass str config method path attempt (Rejected e) = Done (Inl err) evs
           \<and> waits evs = []"
  using assms
  by (auto simp: one_pass_def on_axios_error_def Let_def is_server_error_def split: option.splits)

lemma one_pass_retried_only_server_error:
  assumes "one_pass str config method path attempt (Rejected e) = Continue m evs"
  shows "is_server_error (Rejected e) \<and> num_lt attempt (maxRetries config)
         \<and> attempts evs = [] \<and> waits evs = [waitTime (retryBackoffFactor config) attempt]"
  using assms
  by (auto simp: one_pass_def on_axios_error_def Let_def is_server_error_def
      split: option.splits if_splits)

section \<open>Claims about the transport executor\<close>

text \<open>
  C5. After \<open>k\<close> attempts that ended in a 5xx response (\<open>k\<close> at most \<open>maxRetries\<close>), each
  followed by a wait of \<open>backoffFactor \<times> 2\<^sup>i\<close> seconds (\<open>i\<close> the attempt's number, the
  waits being counted in milliseconds): a 401, 404 or 422 response at attempt \<open>k\<close> ends
  the request with the authentication, not-found or validation error and no further
  attempt or wait; a response that resolves (and is no policy denial) is returned from
  that attempt; and when the last allowed attempt \<open>k = maxRetries\<close> again ends in a 5xx
  response, the request fails with an error that carries that response's status code
  and detail.
\<close>

theorem C5_retry_policy:
  assumes cfg: "maxRetries config = Some (Num (real M))" "retryBackoffFactor config = Some (Num b)"
    and k: "k \<le> M" and srv: "\<forall>i<k. is_server_error (transport i)"
  shows
    "(\<forall>e d. transport k = Rejected e \<and> ax_response e = Some (401, d) \<longrightarrow>
        (\<exists>msg. fst (makeRequest str config transport method path) = Inl (FarameshAuthError msg))
        \<and> attempts (snd (makeRequest str config transport method path)) = [0..<Suc k]
        \<and> waits (snd (makeRequest str config transport method path))
            = map (\<lambda>i. Num (b * 2 ^ i * 1000)) [0..<k])
     \<and> (\<forall>e d. transport k = Rejected e \<and> ax_response e = Some (404, d) \<longrightarrow>
        (\<exists>msg. fst (makeRequest str config transport method path) = Inl (FarameshNotFoundError msg))
        \<and> attempts (snd (makeRequest str config transport method path)) = [0..<Suc k]
        \<and> waits (snd (makeRequest str config transport method path))
            = map (\<lambda>i. Num (b * 2 ^ i * 1000)) [0..<k])
     \<and> (\<forall>e d. transport k = Rejected e \<and> ax_response e = Some (422, d) \<longrightarrow>
        (\<exists>msg. fst (makeRequest str config transport method path) = Inl (FarameshValidationError msg))
        \<and> attempts (snd (makeRequest str config transport method path)) = [0..<Suc k]
        \<and> waits (snd (makeRequest str config transport method path))
            = map (\<lambda>i. Num (b * 2 ^ i * 1000)) [0..<k])
     \<and> (\<forall>st data. transport k = Resolved st data \<and> \<not> is_policy_denial method path data \<longrightarrow>
        fst (makeRequest str config transport method path) = Inr data
        \<and> attempts (snd (makeRequest str config transport method path)) = [0..<Suc k]
        \<and> waits (snd (makeRequest str config transport method path))
            = map (\<lambda>i. Num (b * 2 ^ i * 1000)) [0..<k])
     \<and> (\<forall>e s d. k = M \<and> transport k = Rejected e \<and> ax_response e = Some (s, d) \<and> s \<ge> 500
            \<and> ax_code e \<noteq> Some (lit ''ECONNABORTED'')
            \<and> \<not> includes_str (ax_message e) (lit ''timeout'') \<longrightarrow>
        fst (makeRequest str config transport method path)
          = Inl (FarameshError (lit ''Request failed: '' @ detail_text e) (Some s))
        \<and> attempts (snd (makeRequest str config transport method path)) = [0..<Suc k]
        \<and> waits (snd (makeRequest str config transport method path))
            = map (\<lambda>i. Num (b * 2 ^ i * 1000)) [0..<k])"
proof -
  have w: "map (waitTime (retryBackoffFactor config)) [0..<k] = map (\<lambda>i. Num (b * 2 ^ i * 1000)) [0..<k]"
    by (simp add: waitTime_def cfg(2))
  note run = makeRequest_after_server_errors [OF cfg(1) k srv, of str "method" path]
  have fin: "fst (makeRequest str config transport method path) = result
        \<and> attempts (snd (makeRequest str config transport method path)) = [0..<Suc k]
        \<and> waits (snd (makeRequest str config transport method path))
            = map (\<lambda>i. Num (b * 2 ^ i * 1000)) [0..<k]"
    if "one_pass str config method path k (transport k) = Done result evs" "waits evs = []"
    for result evs
    using run [OF that(1)] that(2) w by simp
  have "\<not> num_lt M (maxRetries config)" by (simp add: num_lt_def cfg(1))
  then have last: "k = M \<Longrightarrow> \<not> num_lt k (maxRetries config)" by simp
  show ?thesis
  proof (intro conjI allI impI)
    fix e d assume a: "transport k = Rejected e \<and> ax_response e = Some (401, d)"
    then obtain evs where
      "one_pass str config method path k (transport k)
        = Done (Inl (FarameshAuthError (lit ''Authentication failed (401) on '' @ path @ lit '': ''
                @ (if truthy d then toText d else ax_message e)))) evs" "waits evs = []"
      by (simp add: one_pass_def on_axios_error_def Let_def)
    from fin [OF this]
    show "\<exists>msg. fst (makeRequest str config transport method path) = Inl (FarameshAuthError msg)"
      and "attempts (snd (makeRequest str config transport method path)) = [0..<Suc k]"
      and "waits (snd (makeRequest str config transport method path))
            = map (\<lambda>i. Num (b * 2 ^ i * 1000)) [0..<k]"
      by auto
  next
    fix e d assume a: "transport k = Rejected e \<and> ax_response e = Some (404, d)"
    then obtain evs where
      "one_pass str config method path k (transport k)
        = Done (Inl (FarameshNotFoundError (lit ''Resource not found (404) on '' @ path))) evs"
      "waits evs = []"
      by (simp add: one_pass_def on_axios_error_def Let_def)
    from fin [OF this]
    show "\<exists>msg. fst (makeRequest str config transport method path) = Inl (FarameshNotFoundError msg)"
      and "attempts (snd (makeRequest str config transport method path)) = [0..<Suc k]"
      and "waits (snd (makeRequest str config transport method path))
            = map (\<lambda>i. Num (b * 2 ^ i * 1000)) [0..<k]"
      by auto
  next
    fix e d assume a: "transport k = Rejected e \<and> ax_response e = Some (422, d)"
    then obtain evs where
      "one_pass str config method path k (transport k)
        = Done (Inl (FarameshValidationError
               (lit ''Validation error (422) on '' @ path @ lit '': '' @ detail_text e))) evs"
      "waits evs = []"
      by (simp add: one_pass_def on_axios_error_def Let_def)
    from fin [OF this]
    show "\<exists>msg. fst (makeRequest str config transport method path) = Inl (FarameshValidationError msg)"
      and "attempts (snd (makeRequest str config transport method path)) = [0..<Suc k]"
      and "waits (snd (makeRequest str config transport method path))
            = map (\<lambda>i. Num (b * 2 ^ i * 1000)) [0..<k]"
      by auto
  next
    fix st data assume a: "transport k = Resolved st data \<and> \<not> is_policy_denial method path data"
    then obtain evs where
      "one_pass str config method path k (transport k) = Done (Inr data) evs" "waits evs = []"
      by (simp add: one_pass_def on_response_def Let_def)
    from fin [OF this]
    show "fst (makeRequest str config transport method path) = Inr data"
      and "attempts (snd (makeRequest str config transport method path)) = [0..<Suc k]"
      and "waits (snd (makeRequest str config transport method path))
            = map (\<lambda>i. Num (b * 2 ^ i * 1000)) [0..<k]"
      by auto
  next
    fix e s d
    assume a: "k = M \<and> transport k = Rejected e \<and> ax_response e = Some (s, d) \<and> s \<ge> 500
            \<and> ax_code e \<noteq> Some (lit ''ECONNABORTED'')
            \<and> \<not> includes_str (ax_message e) (lit ''timeout'')"
    then have s: "s \<noteq> 401" "s \<noteq> 404" "s \<noteq> 422" by auto
    from a last have nl: "\<not> num_lt k (maxRetries config)" by blast
    from a have tk: "transport k = Rejected e" "ax_response e = Some (s, d)"
      "ax_code e \<noteq> Some (lit ''ECONNABORTED'')" "\<not> includes_str (ax_message e) (lit ''timeout'')"
      by blast+
    have
      "one_pass str config method path k (transport k)
        = Done (Inl (FarameshError (lit ''Request failed: '' @ detail_text e) (Some s))) []"
      by (simp add: one_pass_def on_axios_error_def Let_def tk s nl)
    from fin [OF this]
    show "fst (makeRequest str config transport method path)
          = Inl (FarameshError (lit ''Request failed: '' @ detail_text e) (Some s))"
      and "attempts (snd (makeRequest str config transport method path)) = [0..<Suc k]"
      and "waits (snd (makeRequest str config transport method path))
            = map (\<lambda>i. Num (b * 2 ^ i * 1000)) [0..<k]"
      by auto
  qed
qed

text \<open>
  Two 500 responses and then a 200 under \<open>maxRetries = 3\<close> and a back-off factor of one
  half: the third attempt succeeds after waits of 500 and 1000 milliseconds. A 401 ends
  the request at the first attempt. Four 503 responses use up the retries.
\<close>

theorem C5_retry_policy_witness:
  "maxRetries example_config = Some (Num (real 3))
   \<and> retryBackoffFactor example_config = Some (Num (1 / 2))
   \<and> is_server_error (status_error 500) \<and> is_server_error (status_error 503)
   \<and> \<not> is_policy_denial GET (lit ''/v1/actions/a1'') (JObj [])
   \<and> fst (makeRequest (\<lambda>n. []) example_config
             (\<lambda>i. if i < 2 then status_error 500 else Resolved 200 (JObj []))
             GET (lit ''/v1/actions/a1'')) = Inr (JObj [])
   \<and> attempts (snd (makeRequest (\<lambda>n. []) example_config
             (\<lambda>i. if i < 2 then status_error 500 else Resolved 200 (JObj []))
             GET (lit ''/v1/actions/a1''))) = [0, 1, 2]
   \<and> waits (snd (makeRequest (\<lambda>n. []) example_config
             (\<lambda>i. if i < 2 then status_error 500 else Resolved 200 (JObj []))
             GET (lit ''/v1/actions/a1''))) = [Num 500, Num 1000]
   \<and> (\<exists>msg. fst (makeRequest (\<lambda>n. []) example_config (\<lambda>i. status_error 401)
             GET (lit ''/v1/actions/a1'')) = Inl (FarameshAuthError msg))
   \<and> attempts (snd (makeRequest (\<lambda>n. []) example_config (\<lambda>i. status_error 401)
             GET (lit ''/v1/actions/a1''))) = [0]
   \<and> waits (snd (makeRequest (\<lambda>n. []) example_config (\<lambda>i. status_error 401)
             GET (lit ''/v1/actions/a1''))) = []
   \<and> fst (makeRequest (\<lambda>n. []) example_config (\<lambda>i. status_error 503)
             GET (lit ''/v1/actions/a1''))
       = Inl (FarameshError
               (lit ''Request failed: '' @ lit ''Request failed with status code '' @ show_nat 503)
               (Some 503))
   \<and> attempts (snd (makeRequest (\<lambda>n. []) example_config (\<lambda>i. status_error 503)
             GET (lit ''/v1/actions/a1''))) = [0, 1, 2, 3]
   \<and> waits (snd (makeRequest (\<lambda>n. []) example_config (\<lambda>i. status_error 503)
             GET (lit ''/v1/actions/a1''))) = [Num 500, Num 1000, Num 2000]"
proof -
  let ?ok = "\<lambda>i::nat. if i < 2 then status_error 500 else Resolved 200 (JObj [])"
  have m: "maxRetries example_config = Some (Num (real 3))"
    and b: "retryBackoffFactor example_config = Some (Num (1 / 2))"
    by (simp_all add: example_config_def)
  have srv: "is_server_error (status_error s)" if "s \<ge> 500" for s
    using that by (simp add: is_server_error_def status_error_def)
  have s2: "\<forall>i<2. is_server_error (?ok i)" using srv [of 500] by simp
  have s0: "\<forall>i<(0::nat). is_server_error (status_error 401)" by simp
  have s3: "\<forall>i<(3::nat). is_server_error (status_error 503)" using srv [of 503] by simp
  have nd: "\<not> is_policy_denial GET (lit ''/v1/actions/a1'') (JObj [])"
    by (simp add: is_policy_denial_def)
  have u2: "[0..<Suc 2] = [0, 1, 2]" "[0..<2] = [0, 1]" "[0..<Suc 3] = [0, 1, 2, 3]"
    "[0..<3] = [0, 1, 2]" "[0..<Suc 0] = [0]" "[0..<4] = [0, 1, 2, 3]"
    by (simp_all add: upt_rec)
  have msg503: "\<not> includes_str (lit ''Request failed with status code '' @ show_nat 503) (lit ''timeout'')"
    by code_simp
  have d503: "detail_text (AxiosError (Some (503, JNull)) (Some (lit ''ERR_BAD_RESPONSE''))
       (lit ''Request failed with status code '' @ show_nat 503))
       = lit ''Request failed with status code '' @ show_nat 503"
    by (simp add: detail_text_def)
  have code: "Some (lit ''ERR_BAD_RESPONSE'') \<noteq> Some (lit ''ECONNABORTED'')"
    by (simp add: lit_def)
  have A: "fst (makeRequest (\<lambda>n. []) example_config ?ok GET (lit ''/v1/actions/a1'')) = Inr (JObj [])
     \<and> attempts (snd (makeRequest (\<lambda>n. []) example_config ?ok GET (lit ''/v1/actions/a1''))) = [0, 1, 2]
     \<and> waits (snd (makeRequest (\<lambda>n. []) example_config ?ok GET (lit ''/v1/actions/a1''))) = [Num 500, Num 1000]"
    using C5_retry_policy [of example_config 3 "1 / 2" 2 _ "\<lambda>n. []" GET
        "lit ''/v1/actions/a1''", OF m b _ s2] nd
    by (simp add: u2)
  have B: "(\<exists>msg. fst (makeRequest (\<lambda>n. []) example_config (\<lambda>i. status_error 401)
             GET (lit ''/v1/actions/a1'')) = Inl (FarameshAuthError msg))
     \<and> attempts (snd (makeRequest (\<lambda>n. []) example_config (\<lambda>i. status_error 401)
             GET (lit ''/v1/actions/a1''))) = [0]
     \<and> waits (snd (makeRequest (\<lambda>n. []) example_config (\<lambda>i. status_error 401)
             GET (lit ''/v1/actions/a1''))) = []"
    using C5_retry_policy [of example_config 3 "1 / 2" 0 _ "\<lambda>n. []" GET
        "lit ''/v1/actions/a1''", OF m b _ s0]
    by (simp add: status_error_def)
  have C: "fst (makeRequest (\<lambda>n. []) example_config (\<lambda>i. status_error 503)
             GET (lit ''/v1/actions/a1''))
       = Inl (FarameshError
               (lit ''Request failed: '' @ lit ''Request failed with status code '' @ show_nat 503)
               (Some 503))
     \<and> attempts (snd (makeRequest (\<lambda>n. []) example_config (\<lambda>i. status_error 503)
             GET (lit ''/v1/actions/a1''))) = [0, 1, 2, 3]
     \<and> waits (snd (makeRequest (\<lambda>n. []) example_config (\<lambda>i. status_error 503)
             GET (lit ''/v1/actions/a1''))) = [Num 500, Num 1000, Num 2000]"
    using C5_retry_policy [of example_config 3 "1 / 2" 3 _ "\<lambda>n. []" GET
        "lit ''/v1/actions/a1''", OF m b _ s3]
      msg503 d503 code
    by (simp add: status_error_def u2)
  show ?thesis
    using m b srv [of 500] srv [of 503] nd A B C by simp
qed

text \<open>
  C4, as stated: a connection failure is retried like a 5xx response. With
  \<open>maxRetries = 3\<close> and a server that refuses every connection, the request makes one
  attempt and no wait, and fails with the generic request error.
\<close>

theorem C4_connection_refused_counterexample:
  "maxRetries example_config = Some (Num 3)
   \<and> makeRequest (\<lambda>n. []) example_config (\<lambda>i. connection_refused) GET (lit ''/v1/actions'')
     = (Inl (FarameshError (lit ''Request failed: connect ECONNREFUSED 127.0.0.1:8000'') (Some 0)),
        [Attempt 0])"
  by (simp add: makeRequest_def request_loop.simps one_pass_def on_axios_error_def
      connection_refused_def example_config_def num_le_def num_lt_def notify_def detail_text_def
      lit_def)

text \<open>
  C4, amended: among the errors of the HTTP client only a 5xx response is retried.
  After \<open>k\<close> attempts that ended in a 5xx response and were retried (\<open>k\<close> at most
  \<open>maxRetries\<close>, which may be any number), an error at attempt \<open>k\<close> that is not a 5xx
  response, be it without a response (connection refused, DNS failure, timeout) or with
  a response whose status is below 500, ends the request with an error: no attempt
  follows it and no wait beyond those of the \<open>k\<close> retried responses. Without a response
  the error is the timeout error when the failure is a timeout (code \<open>ECONNABORTED\<close>, or
  \<open>timeout\<close> in the message), and otherwise the generic request error with status 0 and
  the failure's message. And a pass of the loop goes on to another attempt after an
  error of the HTTP client only when the error is a 5xx response and attempts are left,
  and then waits the backoff time first.
\<close>

theorem C4_connection_failure_not_retried:
  assumes cfg: "maxRetries config = Some (Num r)" and k: "real k \<le> r"
    and srv: "\<forall>i<k. is_server_error (transport i)"
    and fail: "transport k = Rejected e" "\<not> is_server_error (Rejected e)"
  shows "(\<exists>err. fst (makeRequest str config transport method path) = Inl err)
     \<and> attempts (snd (makeRequest str config transport method path)) = [0..<Suc k]
     \<and> waits (snd (makeRequest str config transport method path))
         = map (waitTime (retryBackoffFactor config)) [0..<k]
     \<and> (ax_response e = None
        \<and> (ax_code e = Some (lit ''ECONNABORTED'') \<or> includes_str (ax_message e) (lit ''timeout'')) \<longrightarrow>
          (\<exists>msg. fst (makeRequest str config transport method path) = Inl (FarameshTimeoutError msg)))
     \<and> (ax_response e = None \<and> ax_code e \<noteq> Some (lit ''ECONNABORTED'')
        \<and> \<not> includes_str (ax_message e) (lit ''timeout'') \<longrightarrow>
          fst (makeRequest str config transport method path)
            = Inl (FarameshError (lit ''Request failed: '' @ ax_message e) (Some 0)))
     \<and> (\<forall>a e' m evs.
          one_pass str config method path a (Rejected e') = Continue m evs \<longrightarrow>
            is_server_error (Rejected e') \<and> num_lt a (maxRetries config)
            \<and> waits evs = [waitTime (retryBackoffFactor config) a])"
proof -
  have le: "num_le k (maxRetries config)" using cfg k by (simp add: num_le_def)
  note run = makeRequest_after_retried [OF le srv, of str "method" path]
  from one_pass_not_server_error [OF fail(2), of str config "method" path k] fail(1)
  obtain err evs where p:
    "one_pass str config method path k (transport k) = Done (Inl err) evs" "waits evs = []"
    by auto
  have A: "\<exists>err. fst (makeRequest str config transport method path) = Inl err"
    using run(1) [OF p(1)] by simp
  have B: "attempts (snd (makeRequest str config transport method path)) = [0..<Suc k]"
    by (rule run(2) [OF p(1)])
  have C: "waits (snd (makeRequest str config transport method path))
         = map (waitTime (retryBackoffFactor config)) [0..<k]"
    using run(3) [OF p(1)] p(2) by simp
  have D: "\<exists>msg. fst (makeRequest str config transport method path) = Inl (FarameshTimeoutError msg)"
    if "ax_response e = None"
      "ax_code e = Some (lit ''ECONNABORTED'') \<or> includes_str (ax_message e) (lit ''timeout'')"
  proof -
    from that fail(1) obtain evs' where
      "one_pass str config method path k (transport k)
        = Done (Inl (FarameshTimeoutError
               (lit ''Request timed out after '' @ opt_text str (timeoutMs config) @ lit ''ms: ''
                @ full_url config path))) evs'"
      by (simp add: one_pass_def on_axios_error_def Let_def)
    from run(1) [OF this] show ?thesis by simp
  qed
  have E: "fst (makeRequest str config transport method path)
            = Inl (FarameshError (lit ''Request failed: '' @ ax_message e) (Some 0))"
    if "ax_response e = None" "ax_code e \<noteq> Some (lit ''ECONNABORTED'')"
      "\<not> includes_str (ax_message e) (lit ''timeout'')"
  proof -
    from that fail(1) have
      "one_pass str config method path k (transport k)
        = Done (Inl (FarameshError (lit ''Request failed: '' @ ax_message e) (Some 0))) []"
      by (simp add: one_pass_def on_axios_error_def Let_def detail_text_def)
    from run(1) [OF this] show ?thesis .
  qed
  have F: "is_server_error (Rejected e') \<and> num_lt a (maxRetries config)
            \<and> waits evs = [waitTime (retryBackoffFactor config) a]"
    if "one_pass str config method path a (Rejected e') = Continue m evs" for a e' m evs
    using one_pass_retried_only_server_error [OF that] by simp
  from A B C D E F show ?thesis by blast
qed

text \<open>
  With \<open>maxRetries = 3\<close>: a 503 response followed by a refused connection makes two
  attempts with the one wait of the 503 between them, and a 403 response makes one
  attempt and no wait.
\<close>

theorem C4_connection_failure_not_retried_witness:
  "maxRetries example_config = Some (Num 3) \<and> real 1 \<le> 3
   \<and> is_server_error (status_error 503)
   \<and> \<not> is_server_error connection_refused
   \<and> \<not> is_server_error (status_error 403)
   \<and> fst (makeRequest (\<lambda>n. []) example_config
             (\<lambda>i. if i < 1 then status_error 503 else connection_refused) GET (lit ''/v1/actions''))
       = Inl (FarameshError (lit ''Request failed: connect ECONNREFUSED 127.0.0.1:8000'') (Some 0))
   \<and> attempts (snd (makeRequest (\<lambda>n. []) example_config
             (\<lambda>i. if i < 1 then status_error 503 else connection_refused) GET (lit ''/v1/actions'')))
       = [0, 1]
   \<and> waits (snd (makeRequest (\<lambda>n. []) example_config
             (\<lambda>i. if i < 1 then status_error 503 else connection_refused) GET (lit ''/v1/actions'')))
       = [Num 500]
   \<and> (\<exists>err. fst (makeRequest (\<lambda>n. []) example_config (\<lambda>i. status_error 403) GET
                  (lit ''/v1/actions'')) = Inl err)
   \<and> attempts (snd (makeRequest (\<lambda>n. []) example_config (\<lambda>i. status_error 403) GET
                  (lit ''/v1/actions''))) = [0]
   \<and> waits (snd (makeRequest (\<lambda>n. []) example_config (\<lambda>i. status_error 403) GET
                  (lit ''/v1/actions''))) = []"
proof -
  let ?t = "\<lambda>i::nat. if i < 1 then status_error 503 else connection_refused"
  let ?e = "AxiosError None (Some (lit ''ECONNREFUSED'')) (lit ''connect ECONNREFUSED 127.0.0.1:8000'')"
  let ?f = "AxiosError (Some (403, JNull)) (Some (lit ''ERR_BAD_RESPONSE''))
       (lit ''Request failed with status code '' @ show_nat 403)"
  have m: "maxRetries example_config = Some (Num 3)"
    and b: "retryBackoffFactor example_config = Some (Num (1 / 2))"
    by (simp_all add: example_config_def)
  have k1: "real 1 \<le> 3" and k0: "real 0 \<le> 3" by simp_all
  have srv: "is_server_error (status_error 503)"
    by (simp add: is_server_error_def status_error_def)
  have s1: "\<forall>i<1. is_server_error (?t i)" using srv by simp
  have s0: "\<forall>i<(0::nat). is_server_error (status_error 403)" by simp
  have t1: "?t 1 = Rejected ?e" by (simp add: connection_refused_def)
  have t0: "status_error 403 = Rejected ?f" by (simp add: status_error_def)
  have n1: "\<not> is_server_error (Rejected ?e)" by (simp add: is_server_error_def)
  have n0: "\<not> is_server_error (Rejected ?f)" by (simp add: is_server_error_def)
  have code: "Some (lit ''ECONNREFUSED'') \<noteq> Some (lit ''ECONNABORTED'')"
    by (simp add: lit_def)
  have msg: "\<not> includes_str (lit ''connect ECONNREFUSED 127.0.0.1:8000'') (lit ''timeout'')"
    by code_simp
  have joined: "lit ''Request failed: '' @ lit ''connect ECONNREFUSED 127.0.0.1:8000''
      = lit ''Request failed: connect ECONNREFUSED 127.0.0.1:8000''"
    by (simp add: lit_def)
  have u: "[0..<Suc 1] = [0, 1]" "[0..<1] = [0]" "[0..<Suc 0] = [0]"
    by (simp_all add: upt_rec)
  have A: "fst (makeRequest (\<lambda>n. []) example_config ?t GET (lit ''/v1/actions''))
       = Inl (FarameshError (lit ''Request failed: connect ECONNREFUSED 127.0.0.1:8000'') (Some 0))
     \<and> attempts (snd (makeRequest (\<lambda>n. []) example_config ?t GET (lit ''/v1/actions''))) = [0, 1]
     \<and> waits (snd (makeRequest (\<lambda>n. []) example_config ?t GET (lit ''/v1/actions''))) = [Num 500]"
    using C4_connection_failure_not_retried [of example_config 3 1 ?t ?e "\<lambda>n. []" GET "lit ''/v1/actions''", OF m k1 s1 t1 n1]
      code msg joined
    by (simp add: u b waitTime_def)
  have B: "(\<exists>err. fst (makeRequest (\<lambda>n. []) example_config (\<lambda>i. status_error 403) GET
                  (lit ''/v1/actions'')) = Inl err)
     \<and> attempts (snd (makeRequest (\<lambda>n. []) example_config (\<lambda>i. status_error 403) GET
                  (lit ''/v1/actions''))) = [0]
     \<and> waits (snd (makeRequest (\<lambda>n. []) example_config (\<lambda>i. status_error 403) GET
                  (lit ''/v1/actions''))) = []"
    using C4_connection_failure_not_retried [of example_config 3 0 "\<lambda>i. status_error 403" ?f "\<lambda>n. []" GET
        "lit ''/v1/actions''", OF m k0 s0 t0 n0]
    by (simp add: u)
  show ?thesis
    using m k1 srv n1 n0 A B by (simp add: connection_refused_def status_error_def)
qed

section \<open>Properties and claims of the action lifecycle\<close>

lemma compare_decisions_mismatches:
  "mismatches (compare_decisions original replayed)
   = map snd (filter fst (replay_checks original replayed))"
  by (simp add: compare_decisions_def replay_checks_def Let_def)

lemma compare_decisions_success:
  "success (compare_decisions original replayed)
   \<longleftrightarrow> mismatches (compare_decisions original replayed) = []"
  by (simp add: compare_decisions_def Let_def)

lemma replayDecision_by_id:
  assumes "actionId \<noteq> []" "getAction server actionId = Inr original"
    and "gateDecide server (agent_id original) (tool original) (operation original)
           (or_empty_object (params original)) (or_empty_object (context' original)) = Inr replayed"
  shows "replayDecision server (Some actionId) None = Inr (compare_decisions original replayed)"
  using assms by (simp add: replayDecision_def)

lemma replayDecision_by_provenance:
  assumes "provenanceId \<noteq> []" "listActions server = Inr actions"
    and "filter (\<lambda>a. provenance_id a = Val provenanceId) actions = original # rest"
    and "gateDecide server (agent_id original) (tool original) (operation original)
           (or_empty_object (params original)) (or_empty_object (context' original)) = Inr replayed"
  shows "replayDecision server actionId (Some provenanceId)
         = Inr (compare_decisions original replayed)"
  using assms by (simp add: replayDecision_def)

lemma replay_request_hash:
  assumes "request_hash original \<noteq> Val (gd_request_hash replayed)"
  shows "\<not> success (compare_decisions original replayed)"
    and "lit ''request_hash mismatch'' \<in> set (mismatches (compare_decisions original replayed))"
proof -
  have "(True, lit ''request_hash mismatch'') \<in> set (replay_checks original replayed)"
    using assms by (simp add: replay_checks_def)
  then show "lit ''request_hash mismatch'' \<in> set (mismatches (compare_decisions original replayed))"
    unfolding compare_decisions_mismatches by force
  then show "\<not> success (compare_decisions original replayed)"
    unfolding compare_decisions_success by auto
qed

text \<open>
  C8. \<^verbatim>\<open>replayDecision\<close>, given the original action (fetched by id, or the first of
  the listed actions with the provenance id) and the decision \<^verbatim>\<open>gateDecide\<close> returns for
  it, returns their comparison: \<open>success\<close> holds exactly when the list of mismatches is
  empty; the list holds, in the order outcome, reason code, request hash, policy hash,
  profile hash, runtime version, the entry of each comparison that disagrees; and a
  differing request hash gives \<open>success = false\<close> and the entry
  \<^verbatim>\<open>request_hash mismatch\<close>.
\<close>

theorem C8_replay_mismatches:
  "(actionId \<noteq> [] \<and> getAction server actionId = Inr original
      \<and> gateDecide server (agent_id original) (tool original) (operation original)
           (or_empty_object (params original)) (or_empty_object (context' original)) = Inr replayed
      \<longrightarrow> replayDecision server (Some actionId) None = Inr (compare_decisions original replayed))
   \<and> (provenanceId \<noteq> [] \<and> listActions server = Inr actions
      \<and> filter (\<lambda>a. provenance_id a = Val provenanceId) actions = original # rest
      \<and> gateDecide server (agent_id original) (tool original) (operation original)
           (or_empty_object (params original)) (or_empty_object (context' original)) = Inr replayed
      \<longrightarrow> replayDecision server otherId (Some provenanceId)
            = Inr (compare_decisions original replayed))
   \<and> (success (compare_decisions original replayed)
        \<longleftrightarrow> mismatches (compare_decisions original replayed) = [])
   \<and> mismatches (compare_decisions original replayed)
       = map snd (filter fst (replay_checks original replayed))
   \<and> (success (compare_decisions original replayed)
        \<longleftrightarrow> (\<forall>c \<in> set (replay_checks original replayed). \<not> fst c))
   \<and> (request_hash original \<noteq> Val (gd_request_hash replayed) \<longrightarrow>
        \<not> success (compare_decisions original replayed)
        \<and> lit ''request_hash mismatch'' \<in> set (mismatches (compare_decisions original replayed)))"
proof (intro conjI impI)
  show "success (compare_decisions original replayed)
        \<longleftrightarrow> (\<forall>c \<in> set (replay_checks original replayed). \<not> fst c)"
    unfolding compare_decisions_success compare_decisions_mismatches
    by (auto simp: filter_empty_conv)
next
  assume "request_hash original \<noteq> Val (gd_request_hash replayed)"
  then show "\<not> success (compare_decisions original replayed)"
    and "lit ''request_hash mismatch'' \<in> set (mismatches (compare_decisions original replayed))"
    by (rule replay_request_hash)+
qed (simp_all add: replayDecision_by_id replayDecision_by_provenance compare_decisions_success
      compare_decisions_mismatches)

text \<open>
  An action with request hash \<open>aa\<close> replayed to a decision with request hash \<open>zz\<close>
  and nothing else changed: the replay fails with the one entry.
\<close>

theorem C8_replay_mismatches_witness:
  "lit ''a1'' \<noteq> [] \<and> getAction example_server (lit ''a1'') = Inr (example_action allowed)
   \<and> gateDecide example_server (agent_id (example_action allowed)) (tool (example_action allowed))
        (operation (example_action allowed)) (or_empty_object (params (example_action allowed)))
        (or_empty_object (context' (example_action allowed))) = Inr (example_decision (lit ''zz''))
   \<and> lit ''p1'' \<noteq> [] \<and> listActions example_server = Inr [example_action allowed]
   \<and> filter (\<lambda>a. provenance_id a = Val (lit ''p1'')) [example_action allowed]
       = example_action allowed # []
   \<and> request_hash (example_action allowed) \<noteq> Val (gd_request_hash (example_decision (lit ''zz'')))
   \<and> replayDecision example_server (Some (lit ''a1'')) None
       = Inr (compare_decisions (example_action allowed) (example_decision (lit ''zz'')))
   \<and> replayDecision example_server None (Some (lit ''p1''))
       = Inr (compare_decisions (example_action allowed) (example_decision (lit ''zz'')))
   \<and> \<not> success (compare_decisions (example_action allowed) (example_decision (lit ''zz'')))
   \<and> mismatches (compare_decisions (example_action allowed) (example_decision (lit ''zz'')))
       = [lit ''request_hash mismatch'']"
proof -
  let ?a = "example_action allowed" and ?d = "example_decision (lit ''zz'')"
  have h1: "lit ''a1'' \<noteq> [] \<and> getAction example_server (lit ''a1'') = Inr ?a
      \<and> gateDecide example_server (agent_id ?a) (tool ?a) (operation ?a)
           (or_empty_object (params ?a)) (or_empty_object (context' ?a)) = Inr ?d"
    by (simp add: example_server_def lit_def)
  have h2: "lit ''p1'' \<noteq> [] \<and> listActions example_server = Inr [?a]
      \<and> filter (\<lambda>a. provenance_id a = Val (lit ''p1'')) [?a] = ?a # []
      \<and> gateDecide example_server (agent_id ?a) (tool ?a) (operation ?a)
           (or_empty_object (params ?a)) (or_empty_object (context' ?a)) = Inr ?d"
    by (simp add: example_server_def example_action_def lit_def)
  have h3: "request_hash ?a \<noteq> Val (gd_request_hash ?d)"
    by (simp add: example_action_def example_decision_def lit_def)
  have checks: "map snd (filter fst (replay_checks ?a ?d)) = [lit ''request_hash mismatch'']"
    by (simp add: replay_checks_def example_action_def example_decision_def or_else_def lit_def)
  note t = C8_replay_mismatches [of "lit ''a1''" example_server ?a ?d "lit ''p1''" "[?a]" "[]" None]
  from t h1 have r1: "replayDecision example_server (Some (lit ''a1'')) None
       = Inr (compare_decisions ?a ?d)" by blast
  from t h2 have r2: "replayDecision example_server None (Some (lit ''p1''))
       = Inr (compare_decisions ?a ?d)" by blast
  from t h3 have r3: "\<not> success (compare_decisions ?a ?d)" by blast
  from t checks have r4: "mismatches (compare_decisions ?a ?d) = [lit ''request_hash mismatch'']"
    by simp
  from h1 h2 h3 r1 r2 r3 r4 show ?thesis by blast
qed









text \<open>
  C6. The claim is that polling ends as soon as the status is no longer
  \<open>pending_approval\<close>. The loop returns for \<open>approved\<close>, \<open>denied\<close>, \<open>allowed\<close>,
  \<open>succeeded\<close> and \<open>failed\<close> only, so an action that is \<open>executing\<close> is polled again:
  with a time limit of 5000 ms and a pass every 2000 ms, an executing action is fetched
  three times and the call ends in the timeout error; and an action seen pending, then
  executing, then succeeded is returned only at the third fetch.
\<close>

theorem C6_executing_is_polled_again:
  "blockUntilApproved (\<lambda>n. lit ''5000'') (Some (Num 2000)) (Some (Num 5000))
     (\<lambda>i. 2000 * real i) (\<lambda>i. Inr (example_action executing))
     = Some (Inl (FarameshTimeoutError (lit ''Timeout waiting for approval after 5000ms'')), 3)
   \<and> blockUntilApproved (\<lambda>n. lit ''5000'') (Some (Num 2000)) (Some (Num 5000))
     (\<lambda>i. 2000 * real i)
     (\<lambda>i. Inr (example_action
                 (if i = 0 then pending_approval else if i < 2 then executing else succeeded)))
     = Some (Inr (example_action succeeded), 3)"
  by (simp add: blockUntilApproved_def ms_or_def poll_approval.simps example_action_def lit_def)

end
